theory Spec2Isabelle
  imports Main "HOL-Library.AList"
begin

section \<open>JavaScript values\<close>

text \<open>
  The payloads of messages and manifests are JSON documents read through JavaScript's
  dynamic operations. Numbers are the integer-valued ones; the entries of an object are
  kept in the order \<^verbatim>\<open>Object.entries\<close> enumerates them, with distinct keys.
\<close>

datatype jsval =
    JUndefined
  | JNull
  | JBool bool
  | JNum int
  | JStr string
  | JArr "jsval list"
  | JObj "(string \<times> jsval) list"

datatype error = TypeError

fun show_nat :: "nat \<Rightarrow> string" where
  "show_nat n =
     (if n < 10 then [''0123456789'' ! n]
      else show_nat (n div 10) @ [''0123456789'' ! (n mod 10)])"

declare show_nat.simps [simp del]

definition show_int :: "int \<Rightarrow> string" where
  "show_int i = (if i < 0 then CHR ''-'' # show_nat (nat (- i)) else show_nat (nat i))"

fun join_commas :: "string list \<Rightarrow> string" where
  "join_commas [] = []"
| "join_commas [s] = s"
| "join_commas (s # t # ss) = s @ '','' @ join_commas (t # ss)"

text \<open>\<^verbatim>\<open>String(value)\<close>; inside an array, null and undefined print as the empty string.\<close>

fun js_String :: "jsval \<Rightarrow> string" where
  "js_String JUndefined = ''undefined''"
| "js_String JNull = ''null''"
| "js_String (JBool b) = (if b then ''true'' else ''false'')"
| "js_String (JNum i) = show_int i"
| "js_String (JStr s) = s"
| "js_String (JArr xs) =
     join_commas (map (\<lambda>x. if x = JUndefined \<or> x = JNull then [] else js_String x) xs)"
| "js_String (JObj es) = ''[object Object]''"

fun truthy :: "jsval \<Rightarrow> bool" where
  "truthy JUndefined = False"
| "truthy JNull = False"
| "truthy (JBool b) = b"
| "truthy (JNum i) = (i \<noteq> 0)"
| "truthy (JStr s) = (s \<noteq> [])"
| "truthy (JArr xs) = True"
| "truthy (JObj es) = True"

text \<open>\<^verbatim>\<open>typeof v === 'object' && v !== null && !Array.isArray(v)\<close>\<close>

fun is_plain_object :: "jsval \<Rightarrow> bool" where
  "is_plain_object (JObj es) = True"
| "is_plain_object v = False"

fun isArray :: "jsval \<Rightarrow> bool" where
  "isArray (JArr xs) = True"
| "isArray v = False"

text \<open>Property read \<^verbatim>\<open>v.k\<close> for a name \<open>k\<close> that no prototype defines; on null and
  undefined it throws.\<close>

fun get_prop :: "jsval \<Rightarrow> string \<Rightarrow> error + jsval" where
  "get_prop JUndefined k = Inl TypeError"
| "get_prop JNull k = Inl TypeError"
| "get_prop (JObj es) k = Inr (case map_of es k of None \<Rightarrow> JUndefined | Some v \<Rightarrow> v)"
| "get_prop v k = Inr JUndefined"

fun index_entries :: "nat \<Rightarrow> 'a list \<Rightarrow> (string \<times> 'a) list" where
  "index_entries i [] = []"
| "index_entries i (x # xs) = (show_nat i, x) # index_entries (Suc i) xs"

text \<open>\<^verbatim>\<open>Object.entries(v)\<close>: the own enumerable properties; indices for arrays and strings.\<close>

fun entries :: "jsval \<Rightarrow> error + (string \<times> jsval) list" where
  "entries JUndefined = Inl TypeError"
| "entries JNull = Inl TypeError"
| "entries (JObj es) = Inr es"
| "entries (JArr xs) = Inr (index_entries 0 xs)"
| "entries (JStr s) = Inr (index_entries 0 (map (\<lambda>c. JStr [c]) s))"
| "entries v = Inr []"

fun startsWith :: "string \<Rightarrow> string \<Rightarrow> bool" where
  "startsWith s [] = True"
| "startsWith [] (p # ps) = False"
| "startsWith (c # cs) (p # ps) = (c = p \<and> startsWith cs ps)"

definition endsWith :: "string \<Rightarrow> string \<Rightarrow> bool" where
  "endsWith s suf = startsWith (rev s) (rev suf)"

fun str_includes :: "string \<Rightarrow> string \<Rightarrow> bool" where
  "str_includes [] sub = (sub = [])"
| "str_includes (c # cs) sub = (startsWith (c # cs) sub \<or> str_includes cs sub)"

section \<open>The document\<close>

text \<open>
  An element carries its lower-cased tag name, its attributes, its inline style
  declaration, the listeners registered on it and its children. Two module-level
  references into the tree are kept on the nodes they point to: the listeners (each
  closure captures the element it was registered on) and \<^verbatim>\<open>_highlightedEl\<close> (the
  mark \<open>highlighted\<close>). A node removed from the document is never attached again, so what
  the program does to a detached node is not observable.

  The inline style is a list of property names with their values. The values that the
  program itself assigns (\<^verbatim>\<open>none\<close>, the outlines, the cursors) are valid, and the
  model keeps them under the name they were assigned to; assigning the empty string
  removes the property. A value taken from a payload is handed to the browser's setter,
  which is a parameter of the model (see \<open>style_setter\<close> below). An attribute selector \<^verbatim>\<open>[name="v"]\<close> built by interpolation
  compares by string equality, which is what the browser does when \<open>v\<close> has no double
  quote, backslash or line break.
\<close>

datatype listener = FocusEdit | BlurEdit | InputEdit | ImgEnter | ImgLeave | ImgClick

record elem =
  tag :: string
  attrs :: "(string \<times> string) list"
  style :: "(string \<times> string) list"
  listeners :: "listener list"
  highlighted :: bool

datatype node = Text string | Element elem "node list"

definition style_set :: "string \<Rightarrow> string \<Rightarrow> (string \<times> string) list \<Rightarrow> (string \<times> string) list" where
  "style_set p v s = (if v = [] then AList.delete p s else AList.update p v s)"

definition style_get :: "string \<Rightarrow> (string \<times> string) list \<Rightarrow> string" where
  "style_get p s = (case map_of s p of None \<Rightarrow> [] | Some v \<Rightarrow> v)"

text \<open>
  \<^verbatim>\<open>el.style[prop] = value\<close> and \<^verbatim>\<open>style.setProperty(name, value)\<close> hand the string
  to the browser, which parses it for that property: a value that does not parse leaves
  the declaration as it was, a value that parses is stored in its normal form, and a
  shorthand is spread over its longhands. What the browser does is not in the program:
  it is the parameter \<open>css\<close> of every function that assigns a value taken from a
  payload. \<open>style_set\<close> is the setter that stores every string as it is given.
\<close>

type_synonym style_setter =
  "string \<Rightarrow> string \<Rightarrow> (string \<times> string) list \<Rightarrow> (string \<times> string) list"

fun assign_style :: "style_setter \<Rightarrow> string \<Rightarrow> string \<Rightarrow> node \<Rightarrow> node" where
  "assign_style css p v (Element e cs) = Element (e\<lparr>style := css p v (style e)\<rparr>) cs"
| "assign_style css p v (Text s) = Text s"

fun set_style_prop :: "string \<Rightarrow> string \<Rightarrow> node \<Rightarrow> node" where
  "set_style_prop p v (Element e cs) = Element (e\<lparr>style := style_set p v (style e)\<rparr>) cs"
| "set_style_prop p v (Text s) = Text s"

fun removeProperty :: "string \<Rightarrow> node \<Rightarrow> node" where
  "removeProperty p (Element e cs) = Element (e\<lparr>style := AList.delete p (style e)\<rparr>) cs"
| "removeProperty p (Text s) = Text s"

fun setAttribute :: "string \<Rightarrow> string \<Rightarrow> node \<Rightarrow> node" where
  "setAttribute a v (Element e cs) = Element (e\<lparr>attrs := AList.update a v (attrs e)\<rparr>) cs"
| "setAttribute a v (Text s) = Text s"

fun getAttribute :: "string \<Rightarrow> node \<Rightarrow> string option" where
  "getAttribute a (Element e cs) = map_of (attrs e) a"
| "getAttribute a (Text s) = None"

fun tagName :: "node \<Rightarrow> string" where
  "tagName (Element e cs) = tag e"
| "tagName (Text s) = []"

fun node_style :: "node \<Rightarrow> (string \<times> string) list" where
  "node_style (Element e cs) = style e"
| "node_style (Text s) = []"

text \<open>Assigning \<^verbatim>\<open>textContent\<close> replaces all children by one text node, or by none
  when the string is empty.\<close>

fun set_textContent :: "string \<Rightarrow> node \<Rightarrow> node" where
  "set_textContent s (Element e cs) = Element e (if s = [] then [] else [Text s])"
| "set_textContent s (Text t) = Text s"

fun textContent :: "node \<Rightarrow> string" where
  "textContent (Text s) = s"
| "textContent (Element e cs) = concat (map textContent cs)"

definition has_attr :: "string \<Rightarrow> elem \<Rightarrow> bool" where
  "has_attr a e = (map_of (attrs e) a \<noteq> None)"

definition attr_eq :: "string \<Rightarrow> string \<Rightarrow> elem \<Rightarrow> bool" where
  "attr_eq a v e = (map_of (attrs e) a = Some v)"

subsection \<open>Element references as paths\<close>

text \<open>\<^verbatim>\<open>querySelector\<close> returns the first match in document order. A reference to
  an element is the list of child indices that leads to it.\<close>

fun find_path :: "(elem \<Rightarrow> bool) \<Rightarrow> node \<Rightarrow> nat list option"
  and find_path_list :: "(elem \<Rightarrow> bool) \<Rightarrow> node list \<Rightarrow> nat list option" where
  "find_path P (Text s) = None"
| "find_path P (Element e cs) = (if P e then Some [] else find_path_list P cs)"
| "find_path_list P [] = None"
| "find_path_list P (c # cs) =
     (case find_path P c of
        Some p \<Rightarrow> Some (0 # p)
      | None \<Rightarrow> (case find_path_list P cs of
                   Some (i # p) \<Rightarrow> Some (Suc i # p)
                 | _ \<Rightarrow> None))"

text \<open>\<^verbatim>\<open>container.querySelector\<close> looks at the descendants only.\<close>

fun querySelector :: "(elem \<Rightarrow> bool) \<Rightarrow> node \<Rightarrow> nat list option" where
  "querySelector P (Element e cs) = find_path_list P cs"
| "querySelector P (Text s) = None"

fun get_at :: "nat list \<Rightarrow> node \<Rightarrow> node option" where
  "get_at [] n = Some n"
| "get_at (i # p) (Element e cs) = (if i < length cs then get_at p (cs ! i) else None)"
| "get_at (i # p) (Text s) = None"

fun modify_at :: "nat list \<Rightarrow> (node \<Rightarrow> node) \<Rightarrow> node \<Rightarrow> node" where
  "modify_at [] f n = f n"
| "modify_at (i # p) f (Element e cs) =
     (if i < length cs then Element e (cs[i := modify_at p f (cs ! i)]) else Element e cs)"
| "modify_at (i # p) f (Text s) = Text s"

section \<open>Value Applier\<close>

text \<open>\<^verbatim>\<open>updateFieldElement\<close> of the preview runtime.\<close>

definition updateFieldElement :: "node \<Rightarrow> string \<Rightarrow> jsval \<Rightarrow> node" where
  "updateFieldElement container field v =
     (case querySelector (attr_eq ''data-dr-field'' field) container of
        None \<Rightarrow> container
      | Some p \<Rightarrow>
          if v = JNull \<or> v = JUndefined then container
          else modify_at p (\<lambda>el.
                 let tagName = tagName el;
                     el = removeProperty ''display'' el
                 in if tagName = ''img'' then setAttribute ''src'' (js_String v) el
                    else if tagName = ''a'' \<and> str_includes field ''href''
                         then setAttribute ''href'' (js_String v) el
                    else set_textContent (js_String v) el) container)"

text \<open>\<^verbatim>\<open>updateField\<close> of the manifest injector.\<close>

definition updateField :: "node \<Rightarrow> string \<Rightarrow> jsval \<Rightarrow> node" where
  "updateField container field v =
     (case querySelector (attr_eq ''data-dr-field'' field) container of
        None \<Rightarrow> container
      | Some p \<Rightarrow>
          if v = JNull \<or> v = JUndefined then container
          else modify_at p (\<lambda>el.
                 let el = removeProperty ''display'' el;
                     tagName = tagName el
                 in if tagName = ''img'' then setAttribute ''src'' (js_String v) el
                    else if tagName = ''a'' \<and> str_includes field ''href''
                         then setAttribute ''href'' (js_String v) el
                    else set_textContent (js_String v) el) container)"

section \<open>Style Patcher\<close>

definition allowedStyleProps :: "string list" where
  "allowedStyleProps =
     [''textAlign'', ''fontWeight'', ''fontSize'', ''letterSpacing'',
      ''lineHeight'', ''color'', ''textTransform'', ''opacity'',
      ''paddingTop'', ''paddingBottom'', ''paddingLeft'', ''paddingRight'',
      ''marginTop'', ''marginBottom'',
      ''gap'', ''justifyContent'', ''alignItems'', ''flexDirection'',
      ''backgroundColor'', ''borderRadius'']"

text \<open>The loop of \<^verbatim>\<open>handleStyleUpdate\<close> over the entries of the style map.\<close>

fun applyStyles :: "style_setter \<Rightarrow> (string \<times> string) list \<Rightarrow> node \<Rightarrow> node" where
  "applyStyles css [] el = el"
| "applyStyles css ((p, v) # styles) el =
     applyStyles css styles (if p \<in> set allowedStyleProps then assign_style css p v el else el)"

definition is_section :: "string \<Rightarrow> elem \<Rightarrow> bool" where
  "is_section sectionId = attr_eq ''data-dr-section'' sectionId"

text \<open>The element a style update addresses: the section itself for \<^verbatim>\<open>__section\<close>,
  else the first style-tagged descendant of the section.\<close>

definition style_target :: "string \<Rightarrow> string \<Rightarrow> node \<Rightarrow> nat list option" where
  "style_target sectionId field doc =
     (case find_path (is_section sectionId) doc of
        None \<Rightarrow> None
      | Some p \<Rightarrow>
          if field = ''__section'' then Some p
          else (case get_at p doc of
                  None \<Rightarrow> None
                | Some sectionEl \<Rightarrow>
                    (case querySelector (attr_eq ''data-dr-style'' field) sectionEl of
                       None \<Rightarrow> None
                     | Some q \<Rightarrow> Some (p @ q))))"

definition handleStyleUpdate ::
    "style_setter \<Rightarrow> string \<Rightarrow> string \<Rightarrow> (string \<times> string) list \<Rightarrow> node \<Rightarrow> node" where
  "handleStyleUpdate css sectionId field styles doc =
     (case style_target sectionId field doc of
        None \<Rightarrow> doc
      | Some el \<Rightarrow> modify_at el (applyStyles css styles) doc)"

section \<open>List Reconciler\<close>

text \<open>\<^verbatim>\<open>cloneNode(true)\<close> copies the subtree with its attributes and inline styles; the
  copy has no listeners and is not the highlighted element.\<close>

fun cloneNode :: "node \<Rightarrow> node" where
  "cloneNode (Text s) = Text s"
| "cloneNode (Element e cs) = Element (e\<lparr>listeners := [], highlighted := False\<rparr>) (map cloneNode cs)"

fun matches :: "(elem \<Rightarrow> bool) \<Rightarrow> node \<Rightarrow> bool" where
  "matches P (Element e cs) = P e"
| "matches P (Text s) = False"

definition is_list_item :: "elem \<Rightarrow> bool" where
  "is_list_item = has_attr ''data-dr-list-item''"

definition is_field :: "string \<Rightarrow> elem \<Rightarrow> bool" where
  "is_field field = attr_eq ''data-dr-field'' field"

text \<open>\<^verbatim>\<open>listEl.querySelectorAll('[data-dr-list-item]').forEach(item => item.remove())\<close>:
  every descendant that is an item leaves its parent.\<close>

fun remove_items :: "node \<Rightarrow> node" where
  "remove_items (Text s) = Text s"
| "remove_items (Element e cs) =
     Element e (map remove_items (filter (\<lambda>c. \<not> matches is_list_item c) cs))"

fun appendChild :: "node \<Rightarrow> node \<Rightarrow> node" where
  "appendChild c (Element e cs) = Element e (cs @ [c])"
| "appendChild c (Text s) = Text s"

text \<open>All item nodes below a node, as \<^verbatim>\<open>querySelectorAll('[data-dr-list-item]')\<close>
  lists them.\<close>

fun item_nodes :: "node \<Rightarrow> node list" where
  "item_nodes (Text s) = []"
| "item_nodes (Element e cs) =
     concat (map (\<lambda>c. (if matches is_list_item c then [c] else []) @ item_nodes c) cs)"

definition typeof_object :: "jsval \<Rightarrow> bool" where
  "typeof_object v = (case v of JObj es \<Rightarrow> True | JArr xs \<Rightarrow> True | JNull \<Rightarrow> True | _ \<Rightarrow> False)"

definition prop_or_undefined :: "jsval \<Rightarrow> string \<Rightarrow> jsval" where
  "prop_or_undefined v k = (case get_prop v k of Inr x \<Rightarrow> x | Inl e \<Rightarrow> JUndefined)"

definition entries_or_empty :: "jsval \<Rightarrow> (string \<times> jsval) list" where
  "entries_or_empty v = (case entries v of Inr es \<Rightarrow> es | Inl e \<Rightarrow> [])"

text \<open>The three ways a list item's field node is written, by node role.\<close>

definition write_item_field :: "jsval \<Rightarrow> jsval \<Rightarrow> node \<Rightarrow> node" where
  "write_item_field itemData v fieldEl =
     (let tagName = tagName fieldEl
      in if tagName = ''img'' then setAttribute ''src'' (js_String v) fieldEl
         else if tagName = ''a'' then
           (let fieldEl = set_textContent (js_String v) fieldEl
            in if truthy (prop_or_undefined itemData ''href'')
               then setAttribute ''href'' (js_String (prop_or_undefined itemData ''href'')) fieldEl
               else fieldEl)
         else set_textContent (js_String v) fieldEl)"

fun fill_sub_fields :: "string \<Rightarrow> (string \<times> jsval) list \<Rightarrow> node \<Rightarrow> node" where
  "fill_sub_fields key [] newItem = newItem"
| "fill_sub_fields key ((subKey, subValue) # rest) newItem =
     fill_sub_fields key rest
       (case querySelector (is_field (key @ ''.'' @ subKey)) newItem of
          None \<Rightarrow> newItem
        | Some subEl \<Rightarrow> modify_at subEl (set_textContent (js_String subValue)) newItem)"

text \<open>The loop over \<^verbatim>\<open>Object.entries(itemData)\<close> in the preview runtime.\<close>

fun fill_fields :: "jsval \<Rightarrow> (string \<times> jsval) list \<Rightarrow> node \<Rightarrow> node" where
  "fill_fields itemData [] newItem = newItem"
| "fill_fields itemData ((key, v) # rest) newItem =
     fill_fields itemData rest
       (if is_plain_object v then fill_sub_fields key (entries_or_empty v) newItem
        else (case querySelector (is_field key) newItem of
                None \<Rightarrow> newItem
              | Some fieldEl \<Rightarrow> modify_at fieldEl (write_item_field itemData v) newItem))"

text \<open>One round of the loop over \<open>items\<close>: the node that is appended for \<open>itemData\<close>.\<close>

definition populate :: "node \<Rightarrow> jsval \<Rightarrow> node" where
  "populate templateClone itemData =
     (let newItem = cloneNode templateClone
      in if \<not> typeof_object itemData \<or> itemData = JNull then
           (case querySelector (has_attr ''data-dr-field'') newItem of
              None \<Rightarrow> newItem
            | Some firstFieldEl \<Rightarrow> modify_at firstFieldEl (set_textContent (js_String itemData)) newItem)
         else fill_fields itemData (entries_or_empty itemData) newItem)"

fun append_items :: "node \<Rightarrow> jsval list \<Rightarrow> node \<Rightarrow> node" where
  "append_items templateClone [] listEl = listEl"
| "append_items templateClone (itemData # items) listEl =
     append_items templateClone items (appendChild (populate templateClone itemData) listEl)"

text \<open>The body of \<^verbatim>\<open>listEls.forEach\<close> in \<^verbatim>\<open>updateArrayField\<close> of the preview
  runtime: what happens to one list container.\<close>

definition reconcile_list :: "jsval list \<Rightarrow> node \<Rightarrow> node" where
  "reconcile_list items listEl =
     (case querySelector is_list_item listEl of
        None \<Rightarrow> listEl
      | Some p \<Rightarrow>
          (case get_at p listEl of
             None \<Rightarrow> listEl
           | Some templateItem \<Rightarrow>
               (let templateClone = cloneNode templateItem
                in append_items templateClone items (remove_items listEl))))"

text \<open>
  \<^verbatim>\<open>querySelectorAll(sel).forEach(f)\<close> over the descendants of a container, for an
  \<open>f\<close> that changes only what lies below the node it visits. The matches are visited in
  document order. A match that lies inside another match is visited after it; when \<open>f\<close>
  is the list body above, by then the inner container has either left the document with
  a removed item or has lost all its items, so that its visit does not change the
  document. The traversal therefore stops at each outermost match.
\<close>

fun map_matching :: "(elem \<Rightarrow> bool) \<Rightarrow> (node \<Rightarrow> node) \<Rightarrow> node \<Rightarrow> node" where
  "map_matching P f (Text s) = Text s"
| "map_matching P f (Element e cs) =
     (if P e then f (Element e cs) else Element e (map (map_matching P f) cs))"

fun forEach_below :: "(elem \<Rightarrow> bool) \<Rightarrow> (node \<Rightarrow> node) \<Rightarrow> node \<Rightarrow> node" where
  "forEach_below P f (Text s) = Text s"
| "forEach_below P f (Element e cs) = Element e (map (map_matching P f) cs)"

definition is_list :: "string \<Rightarrow> elem \<Rightarrow> bool" where
  "is_list listName = attr_eq ''data-dr-list'' listName"

definition updateArrayField :: "node \<Rightarrow> string \<Rightarrow> jsval list \<Rightarrow> string option \<Rightarrow> node" where
  "updateArrayField container listName items fallbackListName =
     (let listEls = is_list listName;
          listEls =
            (if querySelector listEls container = None \<and> fallbackListName \<noteq> None
                \<and> fallbackListName \<noteq> Some []
             then is_list (the fallbackListName) else listEls)
      in if querySelector listEls container = None then container
         else forEach_below listEls (reconcile_list items) container)"

section \<open>Section visibility, highlight and theme\<close>

definition handleSectionToggle :: "string \<Rightarrow> bool \<Rightarrow> node \<Rightarrow> node" where
  "handleSectionToggle sectionId enabled doc =
     (case find_path (is_section sectionId) doc of
        None \<Rightarrow> doc
      | Some sectionEl \<Rightarrow>
          modify_at sectionEl (set_style_prop ''display'' (if enabled then [] else ''none'')) doc)"

fun set_highlighted :: "bool \<Rightarrow> node \<Rightarrow> node" where
  "set_highlighted b (Element e cs) = Element (e\<lparr>highlighted := b\<rparr>) cs"
| "set_highlighted b (Text s) = Text s"

definition handleSectionHighlight :: "string option \<Rightarrow> node \<Rightarrow> node" where
  "handleSectionHighlight sectionId doc =
     (let doc =
        (case find_path highlighted doc of
           None \<Rightarrow> doc
         | Some h \<Rightarrow>
             modify_at h (\<lambda>el. set_highlighted False
                (set_style_prop ''outlineOffset'' [] (set_style_prop ''outline'' [] el))) doc)
      in if sectionId = None \<or> sectionId = Some [] then doc
         else (case find_path (is_section (the sectionId)) doc of
                 None \<Rightarrow> doc
               | Some el \<Rightarrow>
                   modify_at el (\<lambda>el. set_highlighted True
                     (set_style_prop ''outlineOffset'' ''-2px''
                       (set_style_prop ''outline'' ''2px solid rgba(59, 130, 246, 0.5)'' el))) doc))"

text \<open>\<^verbatim>\<open>themeData?.group ?? {}\<close>\<close>

definition theme_group :: "jsval \<Rightarrow> string \<Rightarrow> jsval" where
  "theme_group themeData g =
     (let v = (if themeData = JNull \<or> themeData = JUndefined then JUndefined
               else prop_or_undefined themeData g)
      in if v = JNull \<or> v = JUndefined then JObj [] else v)"

text \<open>\<^verbatim>\<open>if (group.key) style.setProperty(name, group.key)\<close> on the document element.\<close>

definition theme_var :: "style_setter \<Rightarrow> jsval \<Rightarrow> string \<Rightarrow> string \<Rightarrow> node \<Rightarrow> node" where
  "theme_var css g key name root =
     (if truthy (prop_or_undefined g key)
      then assign_style css name (js_String (prop_or_undefined g key)) root else root)"

definition applyThemeCssVars :: "style_setter \<Rightarrow> jsval \<Rightarrow> node \<Rightarrow> node" where
  "applyThemeCssVars css themeData doc =
     (let colors = theme_group themeData ''colors'';
          typography = theme_group themeData ''typography'';
          radius = theme_group themeData ''radius'';
          doc = theme_var css colors ''primary'' ''--primary'' doc;
          doc = theme_var css colors ''primaryForeground'' ''--primary-foreground'' doc;
          doc = theme_var css colors ''background'' ''--background'' doc;
          doc = theme_var css colors ''surface'' ''--surface'' doc;
          doc = theme_var css colors ''muted'' ''--muted'' doc;
          doc = theme_var css colors ''border'' ''--border'' doc;
          doc = theme_var css typography ''fontSans'' ''--font-sans'' doc;
          doc = theme_var css typography ''fontSerif'' ''--font-serif'' doc
      in theme_var css radius ''base'' ''--radius'' doc)"

section \<open>Inline Edit Surface\<close>

text \<open>
  \<^verbatim>\<open>setupInlineEditing\<close> visits every field-tagged element of the document. The visit
  of an element changes that element only (an attribute, two style properties, three
  new listeners) and reads the item marker of its ancestors, which no visit changes, so
  the visits are one pass over the tree that carries down whether an item marker was
  seen. Each call registers three new closures, so \<^verbatim>\<open>addEventListener\<close> adds them
  to whatever the element already has.
\<close>

fun bind_fields :: "bool \<Rightarrow> node \<Rightarrow> node" where
  "bind_fields inItem (Text s) = Text s"
| "bind_fields inItem (Element e cs) =
     (let inItem = (inItem \<or> is_list_item e);
          e = (if has_attr ''data-dr-field'' e \<and> tag e \<noteq> ''img'' \<and> \<not> inItem
               then e\<lparr>attrs := AList.update ''contenteditable'' ''true'' (attrs e),
                      style := style_set ''cursor'' ''text'' (style_set ''outline'' ''none'' (style e)),
                      listeners := listeners e @ [FocusEdit, BlurEdit, InputEdit]\<rparr>
               else e)
      in Element e (map (bind_fields inItem) cs))"

definition setupInlineEditing :: "node \<Rightarrow> node" where
  "setupInlineEditing doc = bind_fields False doc"

fun setupImageClickHandlers :: "node \<Rightarrow> node" where
  "setupImageClickHandlers (Text s) = Text s"
| "setupImageClickHandlers (Element e cs) =
     (let e = (if tag e = ''img'' \<and> has_attr ''data-dr-field'' e
               then e\<lparr>style := style_set ''transition'' ''outline 0.15s ease''
                                 (style_set ''cursor'' ''pointer'' (style e)),
                      listeners := listeners e @ [ImgEnter, ImgLeave, ImgClick]\<rparr>
               else e)
      in Element e (map setupImageClickHandlers cs))"

section \<open>Embedded Sync Channel\<close>

datatype elementType = TextElement | ImageElement

text \<open>\<^verbatim>\<open>IframeToParentMessage\<close>\<close>

datatype outmsg =
    FieldEdited string string string
  | ImageReplaceRequested string string
  | AiSuggestRequested string string string
  | ElementSelected string string elementType string
  | Deselect
  | Ready

text \<open>\<^verbatim>\<open>ParentToIframeMessage\<close>: the data of a message of one of the six types has
  the fields that type declares. \<open>NoMessage\<close> is event data that is falsy or has no
  type, \<open>UnknownType\<close> is data whose type is none of the six.\<close>

datatype inmsg =
    FullUpdate "(string \<times> (string \<times> jsval) list) list" "(string \<times> bool) list"
  | FieldUpdate string string jsval
  | SectionToggle string bool
  | StyleUpdate string string "(string \<times> string) list"
  | SectionHighlight "string option"
  | ScrollToSection string
  | UnknownType
  | NoMessage

record message_event =
  origin :: string
  data :: inmsg

text \<open>
  The state of one page load: the document, \<^verbatim>\<open>_parentOrigin\<close>, what the window is
  (\<^verbatim>\<open>window.location.origin\<close>, whether \<^verbatim>\<open>window.parent\<close> is another
  window, how it resolves a URL against the base of the document, and how it sets a
  style property), and what has
  left the page: the \<^verbatim>\<open>postMessage\<close> calls with their target origin, the console lines, the \<^verbatim>\<open>scrollIntoView\<close> calls, and the handlers that
  \<^verbatim>\<open>handleMessage\<close> has dispatched to.
\<close>

record state =
  dom :: node
  parentOrigin :: string
  locationOrigin :: string
  hasParent :: bool
  resolveURL :: "string \<Rightarrow> string"
  setStyle :: style_setter
  posted :: "(outmsg \<times> string) list"
  console :: "string list"
  scrolled :: "nat list list"
  dispatched :: "string list"

definition sendToParent :: "outmsg \<Rightarrow> state \<Rightarrow> state" where
  "sendToParent message st =
     (if hasParent st then st\<lparr>posted := posted st @ [(message, parentOrigin st)]\<rparr> else st)"

text \<open>The style entries of a \<^verbatim>\<open>__style\<close> object, as assigning them to a style
  property turns them into strings (null becomes the empty string).\<close>

definition style_entries :: "jsval \<Rightarrow> (string \<times> string) list" where
  "style_entries v =
     map (\<lambda>(p, x). (p, if x = JNull then [] else js_String x)) (entries_or_empty v)"

fun update_nested :: "nat list \<Rightarrow> string \<Rightarrow> (string \<times> jsval) list \<Rightarrow> node \<Rightarrow> node" where
  "update_nested sectionEl field [] doc = doc"
| "update_nested sectionEl field ((nestedKey, nestedValue) # rest) doc =
     update_nested sectionEl field rest
       (modify_at sectionEl (\<lambda>s. updateFieldElement s (field @ ''.'' @ nestedKey) nestedValue) doc)"

text \<open>\<^verbatim>\<open>value.forEach((item, index) => ...)\<close> of the full update: the dotted paths
  of the entries of an array.\<close>

fun update_indexed :: "nat list \<Rightarrow> string \<Rightarrow> nat \<Rightarrow> jsval list \<Rightarrow> node \<Rightarrow> node" where
  "update_indexed sectionEl field index [] doc = doc"
| "update_indexed sectionEl field index (item # items) doc =
     update_indexed sectionEl field (Suc index) items
       (if truthy item \<and> typeof_object item
        then update_nested sectionEl (field @ ''.'' @ show_nat index) (entries_or_empty item) doc
        else modify_at sectionEl
               (\<lambda>s. updateFieldElement s (field @ ''.'' @ show_nat index) item) doc)"

text \<open>One round of the loop over the fields of a section in \<^verbatim>\<open>handleFullUpdate\<close>.\<close>

definition full_update_field ::
    "style_setter \<Rightarrow> string \<Rightarrow> nat list \<Rightarrow> string \<times> jsval \<Rightarrow> node \<Rightarrow> node" where
  "full_update_field css sectionId sectionEl fv doc =
     (let field = fst fv; v = snd fv
      in if endsWith field ''__style'' \<and> is_plain_object v then
           handleStyleUpdate css sectionId (take (length field - 7) field) (style_entries v) doc
         else if is_plain_object v then
           update_nested sectionEl field (entries_or_empty v) doc
         else (case v of
                 JArr items \<Rightarrow>
                   update_indexed sectionEl field 0 items
                     (modify_at sectionEl
                        (\<lambda>s. updateArrayField s field items (Some sectionId)) doc)
               | _ \<Rightarrow> modify_at sectionEl (\<lambda>s. updateFieldElement s field v) doc))"

definition full_update_section ::
    "style_setter \<Rightarrow> string \<times> (string \<times> jsval) list \<Rightarrow> node \<Rightarrow> node" where
  "full_update_section css sd doc =
     (let sectionId = fst sd; sectionData = snd sd
      in if sectionId = ''theme'' then applyThemeCssVars css (JObj sectionData) doc
         else (case find_path (is_section sectionId) doc of
                 None \<Rightarrow> doc
               | Some sectionEl \<Rightarrow> fold (full_update_field css sectionId sectionEl) sectionData doc))"

definition handleFullUpdate ::
    "(string \<times> (string \<times> jsval) list) list \<Rightarrow> (string \<times> bool) list \<Rightarrow> state \<Rightarrow> state" where
  "handleFullUpdate dat sections st =
     (let d = fold (\<lambda>(sectionId, enabled). handleSectionToggle sectionId enabled) sections (dom st);
          d = fold (full_update_section (setStyle st)) dat d;
          d = setupInlineEditing d
      in st\<lparr>dom := d, console := console st @ [''[preview-runtime] Full update applied'']\<rparr>)"

definition handleFieldUpdate :: "string \<Rightarrow> string \<Rightarrow> jsval \<Rightarrow> state \<Rightarrow> state" where
  "handleFieldUpdate sectionId field v st =
     (case find_path (is_section sectionId) (dom st) of
        None \<Rightarrow> st\<lparr>console := console st @ [''[preview-runtime] Section not found: '' @ sectionId]\<rparr>
      | Some sectionEl \<Rightarrow>
          (case v of
             JArr items \<Rightarrow>
               st\<lparr>dom := modify_at sectionEl
                      (\<lambda>s. updateArrayField s field items (Some sectionId)) (dom st)\<rparr>
           | _ \<Rightarrow> st\<lparr>dom := modify_at sectionEl (\<lambda>s. updateFieldElement s field v) (dom st)\<rparr>))"

definition accepted :: "string \<Rightarrow> string \<Rightarrow> bool" where
  "accepted own org =
     (\<not> (org \<noteq> own
         \<and> \<not> startsWith org ''http://localhost'' \<and> \<not> startsWith org ''http://127.0.0.1''
         \<and> \<not> startsWith org ''https://localhost'' \<and> \<not> startsWith org ''https://127.0.0.1''
         \<and> \<not> endsWith org ''.pages.dev''
         \<and> \<not> startsWith org ''https://''))"

definition called :: "string \<Rightarrow> state \<Rightarrow> state" where
  "called handler st = st\<lparr>dispatched := dispatched st @ [handler]\<rparr>"

definition handleMessage :: "message_event \<Rightarrow> state \<Rightarrow> state" where
  "handleMessage event st =
     (if \<not> accepted (locationOrigin st) (origin event) then st
      else
        (let st = (if parentOrigin st = ''*'' then st\<lparr>parentOrigin := origin event\<rparr> else st)
         in case data event of
              NoMessage \<Rightarrow> st
            | FullUpdate dat sections \<Rightarrow> handleFullUpdate dat sections (called ''handleFullUpdate'' st)
            | FieldUpdate sectionId field v \<Rightarrow>
                handleFieldUpdate sectionId field v (called ''handleFieldUpdate'' st)
            | SectionToggle sectionId enabled \<Rightarrow>
                (let st = called ''handleSectionToggle'' st
                 in st\<lparr>dom := handleSectionToggle sectionId enabled (dom st)\<rparr>)
            | StyleUpdate sectionId field styles \<Rightarrow>
                (let st = called ''handleStyleUpdate'' st
                 in st\<lparr>dom := handleStyleUpdate (setStyle st) sectionId field styles (dom st)\<rparr>)
            | SectionHighlight sectionId \<Rightarrow>
                (let st = called ''handleSectionHighlight'' st
                 in st\<lparr>dom := handleSectionHighlight sectionId (dom st)\<rparr>)
            | ScrollToSection sectionId \<Rightarrow>
                (case find_path (is_section sectionId) (dom st) of
                   None \<Rightarrow> st
                 | Some target \<Rightarrow> st\<lparr>scrolled := scrolled st @ [target]\<rparr>)
            | UnknownType \<Rightarrow> st))"

text \<open>The module-level state before anything has run.\<close>

definition initial_state ::
    "node \<Rightarrow> string \<Rightarrow> bool \<Rightarrow> (string \<Rightarrow> string) \<Rightarrow> style_setter \<Rightarrow> state" where
  "initial_state d own embedded resolve css =
     \<lparr>dom = d, parentOrigin = ''*'', locationOrigin = own, hasParent = embedded,
      resolveURL = resolve, setStyle = css, posted = [], console = [], scrolled = [], dispatched = []\<rparr>"

text \<open>\<^verbatim>\<open>initPreviewRuntime\<close>. Its two click listeners on the document are part of
  \<open>click\<close> below.\<close>

definition initPreviewRuntime :: "state \<Rightarrow> state" where
  "initPreviewRuntime st =
     (let st = st\<lparr>console := console st @ [''[preview-runtime] Activated'']\<rparr>;
          st = st\<lparr>dom := setupInlineEditing (dom st)\<rparr>;
          st = st\<lparr>dom := setupImageClickHandlers (dom st)\<rparr>
      in sendToParent Ready st)"

subsection \<open>User events\<close>

fun ancestors_or_self :: "nat list \<Rightarrow> nat list list" where
  "ancestors_or_self p = (if p = [] then [[]] else p # ancestors_or_self (butlast p))"

declare ancestors_or_self.simps [simp del]

definition matches_at :: "(elem \<Rightarrow> bool) \<Rightarrow> node \<Rightarrow> nat list \<Rightarrow> bool" where
  "matches_at P d q = (case get_at q d of None \<Rightarrow> False | Some n \<Rightarrow> matches P n)"

text \<open>\<^verbatim>\<open>el.closest(sel)\<close>: the element itself or its nearest ancestor that matches.\<close>

definition closest :: "(elem \<Rightarrow> bool) \<Rightarrow> nat list \<Rightarrow> node \<Rightarrow> nat list option" where
  "closest P p d = find (matches_at P d) (ancestors_or_self p)"

definition attribute_at :: "string \<Rightarrow> nat list \<Rightarrow> node \<Rightarrow> string option" where
  "attribute_at a p d = (case get_at p d of None \<Rightarrow> None | Some n \<Rightarrow> getAttribute a n)"

text \<open>\<^verbatim>\<open>getSectionId\<close>, and the test \<^verbatim>\<open>if (sectionId && field)\<close> of the listeners:
  both must be non-empty strings.\<close>

definition getSectionId :: "nat list \<Rightarrow> node \<Rightarrow> string option" where
  "getSectionId el d =
     (case closest (has_attr ''data-dr-section'') el d of
        None \<Rightarrow> None
      | Some section \<Rightarrow>
          (case attribute_at ''data-dr-section'' section d of
             None \<Rightarrow> None
           | Some v \<Rightarrow> if v = [] then None else Some v))"

definition section_and_field :: "nat list \<Rightarrow> node \<Rightarrow> (string \<times> string) option" where
  "section_and_field el d =
     (case (getSectionId el d, attribute_at ''data-dr-field'' el d) of
        (Some sectionId, Some field) \<Rightarrow> if field = [] then None else Some (sectionId, field)
      | _ \<Rightarrow> None)"

definition text_at :: "nat list \<Rightarrow> node \<Rightarrow> string" where
  "text_at el d = (case get_at el d of None \<Rightarrow> [] | Some n \<Rightarrow> textContent n)"

text \<open>The \<^verbatim>\<open>src\<close> property of an image: its attribute resolved, or empty.\<close>

definition src_at :: "nat list \<Rightarrow> state \<Rightarrow> string" where
  "src_at el st =
     (case attribute_at ''src'' el (dom st) of
        None \<Rightarrow> []
      | Some v \<Rightarrow> if v = [] then [] else resolveURL st v)"

text \<open>The body of each listener, run for the element \<open>el\<close> it was registered on.\<close>

fun run_listener :: "listener \<Rightarrow> nat list \<Rightarrow> state \<Rightarrow> state" where
  "run_listener FocusEdit el st =
     (let st = st\<lparr>dom := modify_at el (\<lambda>n. set_style_prop ''borderRadius'' ''2px''
                   (set_style_prop ''outlineOffset'' ''2px''
                     (set_style_prop ''outline'' ''2px solid rgba(139, 92, 246, 0.5)'' n))) (dom st)\<rparr>
      in case section_and_field el (dom st) of
           None \<Rightarrow> st
         | Some (sectionId, field) \<Rightarrow>
             sendToParent (ElementSelected sectionId field TextElement (text_at el (dom st))) st)"
| "run_listener BlurEdit el st =
     (let st = st\<lparr>dom := modify_at el (\<lambda>n. set_style_prop ''borderRadius'' []
                   (set_style_prop ''outlineOffset'' []
                     (set_style_prop ''outline'' ''none'' n))) (dom st)\<rparr>
      in case section_and_field el (dom st) of
           None \<Rightarrow> st
         | Some (sectionId, field) \<Rightarrow>
             sendToParent (FieldEdited sectionId field (text_at el (dom st))) st)"
| "run_listener InputEdit el st =
     (case section_and_field el (dom st) of
        None \<Rightarrow> st
      | Some (sectionId, field) \<Rightarrow>
          sendToParent (FieldEdited sectionId field (text_at el (dom st))) st)"
| "run_listener ImgEnter el st =
     st\<lparr>dom := modify_at el (\<lambda>n. set_style_prop ''outlineOffset'' ''2px''
             (set_style_prop ''outline'' ''2px solid rgba(139, 92, 246, 0.5)'' n)) (dom st)\<rparr>"
| "run_listener ImgLeave el st =
     st\<lparr>dom := modify_at el (\<lambda>n. set_style_prop ''outlineOffset'' []
             (set_style_prop ''outline'' ''none'' n)) (dom st)\<rparr>"
| "run_listener ImgClick el st =
     (case section_and_field el (dom st) of
        None \<Rightarrow> st
      | Some (sectionId, field) \<Rightarrow>
          sendToParent (ImageReplaceRequested sectionId field)
            (sendToParent (ElementSelected sectionId field ImageElement (src_at el st)) st))"

fun node_listeners :: "node \<Rightarrow> listener list" where
  "node_listeners (Element e cs) = listeners e"
| "node_listeners (Text s) = []"

definition listeners_at :: "nat list \<Rightarrow> node \<Rightarrow> listener list" where
  "listeners_at el d = (case get_at el d of None \<Rightarrow> [] | Some n \<Rightarrow> node_listeners n)"

text \<open>An event of kind \<open>k\<close> reaching \<open>el\<close> runs the listeners of that kind registered
  there, in the order of registration.\<close>

definition fire :: "listener \<Rightarrow> nat list \<Rightarrow> state \<Rightarrow> state" where
  "fire k el st = fold (\<lambda>l. run_listener l el) (filter (\<lambda>l. l = k) (listeners_at el (dom st))) st"

datatype user_event =
    Focus "nat list"
  | Blur "nat list"
  | Input "nat list"
  | MouseEnter "nat list"
  | MouseLeave "nat list"
  | Click "nat list"

text \<open>
  A click bubbles from its target to the document. The click listener of an image
  stops the propagation; a click that reaches the document meets the two listeners of
  \<^verbatim>\<open>initPreviewRuntime\<close>: the first keeps the preview flag on a navigation and touches
  nothing of this state, the second sends \<^verbatim>\<open>deselect\<close> when the target is outside
  every field.
\<close>

definition click :: "nat list \<Rightarrow> state \<Rightarrow> state" where
  "click target st =
     (case find (\<lambda>q. ImgClick \<in> set (listeners_at q (dom st))) (ancestors_or_self target) of
        Some img \<Rightarrow> fire ImgClick img st
      | None \<Rightarrow>
          if closest (has_attr ''data-dr-field'') target (dom st) = None
          then sendToParent Deselect st else st)"

text \<open>Focus, blur and the mouse events do not bubble; input does.\<close>

fun user_step :: "user_event \<Rightarrow> state \<Rightarrow> state" where
  "user_step (Focus el) st = fire FocusEdit el st"
| "user_step (Blur el) st = fire BlurEdit el st"
| "user_step (Input el) st = fold (fire InputEdit) (ancestors_or_self el) st"
| "user_step (MouseEnter el) st = fire ImgEnter el st"
| "user_step (MouseLeave el) st = fire ImgLeave el st"
| "user_step (Click el) st = click el st"

text \<open>What happens on an activated page: a message arrives, or the user acts on an
  element of the document.\<close>

datatype page_event = Message message_event | User user_event

fun event_target :: "user_event \<Rightarrow> nat list" where
  "event_target (Focus el) = el"
| "event_target (Blur el) = el"
| "event_target (Input el) = el"
| "event_target (MouseEnter el) = el"
| "event_target (MouseLeave el) = el"
| "event_target (Click el) = el"

text \<open>The target of a user event is an element of the current document.\<close>

fun step :: "page_event \<Rightarrow> state \<Rightarrow> state" where
  "step (Message event) st = handleMessage event st"
| "step (User ue) st =
     (if matches_at (\<lambda>e. True) (dom st) (event_target ue) then user_step ue st else st)"

definition run :: "page_event list \<Rightarrow> state \<Rightarrow> state" where
  "run evs st = fold step evs st"

section \<open>Remote Hydration Channel\<close>

text \<open>
  The manifest is whatever JSON the fetch returned, so every property read on it can
  throw. A throw inside \<^verbatim>\<open>applyManifest\<close> is caught by \<^verbatim>\<open>initManifestInjector\<close>
  and leaves the document as it was at that moment: the functions below return the
  document together with the error, if any. \<^verbatim>\<open>applyThemeCssVars\<close> of the injector is
  the same text as the one of the preview runtime.
\<close>

fun for_each :: "('a \<Rightarrow> node \<Rightarrow> node \<times> error option) \<Rightarrow> 'a list \<Rightarrow> node \<Rightarrow> node \<times> error option" where
  "for_each f [] d = (d, None)"
| "for_each f (x # xs) d =
     (case f x d of
        (d', None) \<Rightarrow> for_each f xs d'
      | (d', Some e) \<Rightarrow> (d', Some e))"

text \<open>Running on the element at \<open>p\<close> a body that may throw.\<close>

definition at_path :: "nat list \<Rightarrow> (node \<Rightarrow> node \<times> error option) \<Rightarrow> node \<Rightarrow> node \<times> error option" where
  "at_path p f d =
     (case get_at p d of
        None \<Rightarrow> (d, None)
      | Some n \<Rightarrow> (case f n of (n', er) \<Rightarrow> (modify_at p (\<lambda>_. n') d, er)))"

text \<open>\<^verbatim>\<open>for (const x of v)\<close>: arrays and strings are iterable.\<close>

fun iterate :: "jsval \<Rightarrow> error + jsval list" where
  "iterate (JArr xs) = Inr xs"
| "iterate (JStr s) = Inr (map (\<lambda>c. JStr [c]) s)"
| "iterate v = Inl TypeError"

definition nullish :: "jsval \<Rightarrow> bool" where
  "nullish v = (v = JNull \<or> v = JUndefined)"

text \<open>The collection index is a \<^verbatim>\<open>Map\<close>: a later \<^verbatim>\<open>set\<close> of a key replaces the
  value. Objects and arrays as keys are compared by identity, and no two values of a
  parsed document are the same object, so \<^verbatim>\<open>get\<close> finds primitive keys only.\<close>

fun index_items :: "jsval list \<Rightarrow> (jsval \<times> jsval) list \<Rightarrow> error + (jsval \<times> jsval) list" where
  "index_items [] index = Inr index"
| "index_items (item # items) index =
     (case get_prop item ''id'' of
        Inl e \<Rightarrow> Inl e
      | Inr i \<Rightarrow> index_items items (if truthy i then AList.update i item index else index))"

fun index_collections :: "jsval list \<Rightarrow> (jsval \<times> jsval) list \<Rightarrow> error + (jsval \<times> jsval) list" where
  "index_collections [] index = Inr index"
| "index_collections (col # cols) index =
     (case get_prop col ''data'' of
        Inl e \<Rightarrow> Inl e
      | Inr dat \<Rightarrow>
          (case iterate (if nullish dat then JArr [] else dat) of
             Inl e \<Rightarrow> Inl e
           | Inr items \<Rightarrow>
               (case index_items items index of
                  Inl e \<Rightarrow> Inl e
                | Inr index \<Rightarrow> index_collections cols index)))"

definition collectionIndex :: "jsval \<Rightarrow> error + (jsval \<times> jsval) list" where
  "collectionIndex manifest =
     (case get_prop manifest ''collections'' of
        Inl e \<Rightarrow> Inl e
      | Inr cols \<Rightarrow>
          (case iterate (if nullish cols then JArr [] else cols) of
             Inl e \<Rightarrow> Inl e
           | Inr cols \<Rightarrow> index_collections cols []))"

definition index_get :: "(jsval \<times> jsval) list \<Rightarrow> jsval \<Rightarrow> jsval" where
  "index_get index i =
     (if typeof_object i then JUndefined
      else (case map_of index i of None \<Rightarrow> JUndefined | Some item \<Rightarrow> item))"

text \<open>\<^verbatim>\<open>manifest.sections.find((s) => s.id === 'theme')\<close>\<close>

fun find_theme :: "jsval list \<Rightarrow> error + jsval" where
  "find_theme [] = Inr JUndefined"
| "find_theme (s # ss) =
     (case get_prop s ''id'' of
        Inl e \<Rightarrow> Inl e
      | Inr i \<Rightarrow> if i = JStr ''theme'' then Inr s else find_theme ss)"

fun resolve_fields :: "(jsval \<times> jsval) list \<Rightarrow> (string \<times> jsval) list \<Rightarrow> (string \<times> jsval) list
    \<Rightarrow> error + (string \<times> jsval) list" where
  "resolve_fields index [] dat = Inr dat"
| "resolve_fields index ((key, fieldSchema) # rest) dat =
     (case get_prop fieldSchema ''uiWidget'' of
        Inl e \<Rightarrow> Inl e
      | Inr w \<Rightarrow>
          resolve_fields index rest
            (case map_of dat key of
               Some (JArr refs) \<Rightarrow>
                 if w = JStr ''collectionPicker'' \<and> refs \<noteq> []
                    \<and> (case hd refs of JStr s \<Rightarrow> True | _ \<Rightarrow> False)
                 then AList.update key
                        (JArr (filter truthy (map (index_get index) refs))) dat
                 else dat
             | _ \<Rightarrow> dat))"

text \<open>\<^verbatim>\<open>resolveCollectionRefs\<close>; \<open>section.data\<close> is truthy where it is called.\<close>

definition resolveCollectionRefs :: "jsval \<Rightarrow> (jsval \<times> jsval) list \<Rightarrow> error + (string \<times> jsval) list" where
  "resolveCollectionRefs section index =
     (let dat = entries_or_empty (prop_or_undefined section ''data'');
          sch = prop_or_undefined section ''schema'';
          props = (if nullish sch then JUndefined else prop_or_undefined sch ''properties'');
          schema = (if nullish props then JObj [] else props)
      in resolve_fields index (entries_or_empty schema) dat)"

text \<open>The loop over \<^verbatim>\<open>Object.entries(itemData)\<close> in the injector.\<close>

fun fill_fields_mi :: "jsval \<Rightarrow> (string \<times> jsval) list \<Rightarrow> node \<Rightarrow> node" where
  "fill_fields_mi itemData [] newItem = newItem"
| "fill_fields_mi itemData ((key, v) # rest) newItem =
     fill_fields_mi itemData rest
       (case querySelector (is_field key) newItem of
          None \<Rightarrow> newItem
        | Some fieldEl \<Rightarrow> modify_at fieldEl (write_item_field itemData v) newItem)"

fun append_items_mi :: "node \<Rightarrow> jsval list \<Rightarrow> node \<Rightarrow> node \<times> error option" where
  "append_items_mi templateClone [] listEl = (listEl, None)"
| "append_items_mi templateClone (itemData # items) listEl =
     (case entries itemData of
        Inl e \<Rightarrow> (listEl, Some e)
      | Inr es \<Rightarrow>
          append_items_mi templateClone items
            (appendChild (fill_fields_mi itemData es (cloneNode templateClone)) listEl))"

definition reconcile_list_mi :: "jsval list \<Rightarrow> node \<Rightarrow> node \<times> error option" where
  "reconcile_list_mi items listEl =
     (case querySelector is_list_item listEl of
        None \<Rightarrow> (listEl, None)
      | Some p \<Rightarrow>
          (case get_at p listEl of
             None \<Rightarrow> (listEl, None)
           | Some templateItem \<Rightarrow>
               (let templateClone = cloneNode templateItem
                in append_items_mi templateClone items (remove_items listEl))))"

text \<open>\<^verbatim>\<open>querySelectorAll(sel).forEach(f)\<close> as above, for a body that may throw: the
  first throw ends the traversal.\<close>

fun map_matching_mi :: "(elem \<Rightarrow> bool) \<Rightarrow> (node \<Rightarrow> node \<times> error option) \<Rightarrow> node \<Rightarrow> node \<times> error option"
  and map_matching_list :: "(elem \<Rightarrow> bool) \<Rightarrow> (node \<Rightarrow> node \<times> error option) \<Rightarrow> node list
    \<Rightarrow> node list \<times> error option" where
  "map_matching_mi P f (Text s) = (Text s, None)"
| "map_matching_mi P f (Element e cs) =
     (if P e then f (Element e cs)
      else (case map_matching_list P f cs of (cs', er) \<Rightarrow> (Element e cs', er)))"
| "map_matching_list P f [] = ([], None)"
| "map_matching_list P f (c # cs) =
     (case map_matching_mi P f c of
        (c', Some e) \<Rightarrow> (c' # cs, Some e)
      | (c', None) \<Rightarrow> (case map_matching_list P f cs of (cs', er) \<Rightarrow> (c' # cs', er)))"

fun updateArrayField_mi :: "node \<Rightarrow> string \<Rightarrow> jsval list \<Rightarrow> node \<times> error option" where
  "updateArrayField_mi (Text s) listName items = (Text s, None)"
| "updateArrayField_mi (Element e cs) listName items =
     (case map_matching_list (is_list listName) (reconcile_list_mi items) cs of
        (cs', er) \<Rightarrow> (Element e cs', er))"

fun update_nested_mi :: "nat list \<Rightarrow> string \<Rightarrow> (string \<times> jsval) list \<Rightarrow> node \<Rightarrow> node" where
  "update_nested_mi sectionEl field [] doc = doc"
| "update_nested_mi sectionEl field ((nestedKey, nestedValue) # rest) doc =
     update_nested_mi sectionEl field rest
       (modify_at sectionEl (\<lambda>s. updateField s (field @ ''.'' @ nestedKey) nestedValue) doc)"

text \<open>One round of the loop over the fields of a section in \<^verbatim>\<open>applyManifest\<close>.\<close>

definition apply_field :: "nat list \<Rightarrow> string \<times> jsval \<Rightarrow> node \<Rightarrow> node \<times> error option" where
  "apply_field sectionEl fv doc =
     (let field = fst fv; v = snd fv
      in if endsWith field ''__style'' then (doc, None)
         else if is_plain_object v then
           (update_nested_mi sectionEl field (entries_or_empty v) doc, None)
         else (case v of
                 JArr items \<Rightarrow> at_path sectionEl (\<lambda>s. updateArrayField_mi s field items) doc
               | _ \<Rightarrow> (modify_at sectionEl (\<lambda>s. updateField s field v) doc, None)))"

text \<open>One round of the loop over \<^verbatim>\<open>manifest.sections\<close>.\<close>

definition apply_section :: "(jsval \<times> jsval) list \<Rightarrow> jsval \<Rightarrow> node \<Rightarrow> node \<times> error option" where
  "apply_section index section doc =
     (case get_prop section ''id'' of
        Inl e \<Rightarrow> (doc, Some e)
      | Inr i \<Rightarrow>
          if i = JStr ''theme'' then (doc, None)
          else (case find_path (is_section (js_String i)) doc of
                  None \<Rightarrow> (doc, None)
                | Some sectionEl \<Rightarrow>
                    if prop_or_undefined section ''enabled'' = JBool False
                    then (modify_at sectionEl (set_style_prop ''display'' ''none'') doc, None)
                    else
                      (let doc = modify_at sectionEl (set_style_prop ''display'' []) doc
                       in if \<not> truthy (prop_or_undefined section ''data'') then (doc, None)
                          else (case resolveCollectionRefs section index of
                                  Inl e \<Rightarrow> (doc, Some e)
                                | Inr dat \<Rightarrow> for_each (apply_field sectionEl) dat doc))))"

definition applyManifest :: "style_setter \<Rightarrow> jsval \<Rightarrow> node \<Rightarrow> node \<times> error option" where
  "applyManifest css manifest doc =
     (case collectionIndex manifest of
        Inl e \<Rightarrow> (doc, Some e)
      | Inr index \<Rightarrow>
          (case prop_or_undefined manifest ''sections'' of
             JArr sections \<Rightarrow>
               (case find_theme sections of
                  Inl e \<Rightarrow> (doc, Some e)
                | Inr themeSection \<Rightarrow>
                    (let themeData = (if nullish themeSection then JUndefined
                                      else prop_or_undefined themeSection ''data'');
                         doc = (if truthy themeData then applyThemeCssVars css themeData doc else doc)
                     in for_each (apply_section index) sections doc))
           | _ \<Rightarrow> (doc, Some TypeError)))"

text \<open>What \<^verbatim>\<open>fetch\<close> and \<^verbatim>\<open>response.json()\<close> can give.\<close>

datatype body = NotJSON | JSON jsval

datatype fetch_result = NetworkError | Response bool nat body

text \<open>The outcome of one load: the document, the URLs fetched and the console lines.\<close>

record hydration =
  page :: node
  fetched :: "string list"
  logged :: "string list"

definition initManifestInjector ::
    "style_setter \<Rightarrow> string \<Rightarrow> (string \<Rightarrow> fetch_result) \<Rightarrow> node \<Rightarrow> hydration" where
  "initManifestInjector css url fetch doc =
     (if \<not> startsWith url ''https://'' \<and> \<not> startsWith url ''http://localhost''
         \<and> \<not> startsWith url ''http://127.0.0.1''
      then \<lparr>page = doc, fetched = [],
            logged = [''[manifest-injector] Blocked non-HTTPS manifest URL: '' @ url]\<rparr>
      else
        (case fetch url of
           NetworkError \<Rightarrow>
             \<lparr>page = doc, fetched = [url], logged = [''[manifest-injector] Error:'']\<rparr>
         | Response ok status b \<Rightarrow>
             if \<not> ok then
               \<lparr>page = doc, fetched = [url],
                logged = [''[manifest-injector] Failed to fetch manifest: '' @ show_nat status]\<rparr>
             else
               (case b of
                  NotJSON \<Rightarrow>
                    \<lparr>page = doc, fetched = [url], logged = [''[manifest-injector] Error:'']\<rparr>
                | JSON manifest \<Rightarrow>
                    if \<not> truthy manifest \<or> \<not> isArray (prop_or_undefined manifest ''sections'')
                    then \<lparr>page = doc, fetched = [url],
                          logged = [''[manifest-injector] Invalid manifest shape - missing sections array'']\<rparr>
                    else
                      (case applyManifest css manifest doc of
                         (doc', None) \<Rightarrow>
                           \<lparr>page = doc', fetched = [url],
                            logged = [''[manifest-injector] Manifest applied successfully'']\<rparr>
                       | (doc', Some e) \<Rightarrow>
                           \<lparr>page = doc', fetched = [url],
                            logged = [''[manifest-injector] Error:'']\<rparr>))))"

section \<open>Example documents\<close>

definition plain_element :: "string \<Rightarrow> (string \<times> string) list \<Rightarrow> node list \<Rightarrow> node" where
  "plain_element t a cs =
     Element \<lparr>tag = t, attrs = a, style = [], listeners = [], highlighted = False\<rparr> cs"

text \<open>A list container with one item that shows a title and a price.\<close>

definition example_list :: node where
  "example_list =
     plain_element ''ul'' [(''data-dr-list'', ''features'')]
       [plain_element ''li'' [(''data-dr-list-item'', [])]
          [plain_element ''span'' [(''data-dr-field'', ''title'')] [Text ''T''],
           plain_element ''span'' [(''data-dr-field'', ''price'')] [Text ''P'']]]"

text \<open>A page with one section: a heading that is a field and a style target, an image
  and the list.\<close>

definition example_page :: node where
  "example_page =
     plain_element ''html'' []
       [plain_element ''section'' [(''data-dr-section'', ''hero'')]
          [plain_element ''h1'' [(''data-dr-field'', ''title''), (''data-dr-style'', ''title'')]
             [Text ''Old''],
           plain_element ''img'' [(''data-dr-field'', ''photo''), (''src'', ''a.png'')] [],
           example_list]]"

text \<open>A browser for the examples: \<^verbatim>\<open>notacolor\<close> is a value that it does not parse,
  every other string it stores as given.\<close>

definition example_css :: style_setter where
  "example_css p v s = (if v = ''notacolor'' then s else style_set p v s)"

text \<open>A list container that has a caption besides its one item.\<close>

definition captioned_list :: node where
  "captioned_list =
     plain_element ''ul'' [(''data-dr-list'', ''features'')]
       [plain_element ''h3'' [] [Text ''Features''],
        plain_element ''li'' [(''data-dr-list-item'', [])]
          [plain_element ''span'' [(''data-dr-field'', ''title'')] [Text ''T'']]]"

text \<open>The page of the examples, loaded in a frame of another window.\<close>

definition example_state :: state where
  "example_state = initial_state example_page ''https://site.example'' True (\<lambda>u. u) example_css"

section \<open>Notions used in the properties\<close>


text \<open>From \<open>st\<close> to \<open>st'\<close> the parent origin has stayed what it was, and whatever was
  posted in between was posted to it.\<close>

definition posts_to_parent :: "state \<Rightarrow> state \<Rightarrow> bool" where
  "posts_to_parent st st' =
     (parentOrigin st' = parentOrigin st \<and> locationOrigin st' = locationOrigin st
      \<and> (\<exists>new. posted st' = posted st @ new \<and> (\<forall>mt\<in>set new. snd mt = parentOrigin st)))"

text \<open>The test \<^verbatim>\<open>typeof itemData !== 'object' || itemData === null\<close> of
  \<^verbatim>\<open>updateArrayField\<close>: an entry that is written into the first field of the item.\<close>

definition scalar :: "jsval \<Rightarrow> bool" where
  "scalar d = (\<not> typeof_object d \<or> d = JNull)"

text \<open>The items a container shows after a reconciliation: \<^verbatim>\<open>appendChild\<close> makes
  them children of the container.\<close>

fun rendered_items :: "node \<Rightarrow> node list" where
  "rendered_items (Element e cs) = filter (matches is_list_item) cs"
| "rendered_items (Text s) = []"

text \<open>The prefix test of \<^verbatim>\<open>initManifestInjector\<close>: the URLs that it goes on to
  fetch.\<close>

definition passes_url_check :: "string \<Rightarrow> bool" where
  "passes_url_check url =
     (startsWith url ''https://'' \<or> startsWith url ''http://localhost''
      \<or> startsWith url ''http://127.0.0.1'')"

text \<open>A manifest body that is an object with an array of sections.\<close>

definition has_sections_array :: "jsval \<Rightarrow> bool" where
  "has_sections_array m =
     (case m of
        JObj es \<Rightarrow> (case map_of es ''sections'' of Some (JArr xs) \<Rightarrow> True | _ \<Rightarrow> False)
      | _ \<Rightarrow> False)"

definition style_at :: "nat list \<Rightarrow> string \<Rightarrow> node \<Rightarrow> string" where
  "style_at p k d = (case get_at p d of None \<Rightarrow> [] | Some n \<Rightarrow> style_get k (node_style n))"





text \<open>
  A section id or field name for which the selector that the program builds by
  interpolation is the intended one: it has no double quote, backslash, line feed,
  carriage return or form feed. With one of these the browser either throws or
  compares with another string.
\<close>

definition selector_safe :: "string \<Rightarrow> bool" where
  "selector_safe s =
     (CHR 0x22 \<notin> set s \<and> CHR 0x5C \<notin> set s \<and> CHR 0x0A \<notin> set s \<and> CHR 0x0D \<notin> set s
      \<and> CHR 0x0C \<notin> set s)"



text \<open>The entries of a style payload whose property is on the allow list.\<close>

definition allowed_entries :: "(string \<times> string) list \<Rightarrow> (string \<times> string) list" where
  "allowed_entries styles = filter (\<lambda>pv. fst pv \<in> set allowedStyleProps) styles"

text \<open>The browser stores each of these entries as it is given, whatever the
  declaration: the value parses for the property, is in its normal form, and the
  property is no shorthand.\<close>

definition stores_payload :: "style_setter \<Rightarrow> (string \<times> string) list \<Rightarrow> bool" where
  "stores_payload css styles =
     (\<forall>pv\<in>set styles. \<forall>s. css (fst pv) (snd pv) s = style_set (fst pv) (snd pv) s)"

text \<open>The host of a URL: what stands between \<^verbatim>\<open>://\<close> and the next slash, colon,
  question mark or hash.\<close>

fun drop_scheme :: "string \<Rightarrow> string" where
  "drop_scheme [] = []"
| "drop_scheme (c # cs) = (if startsWith (c # cs) ''://'' then drop 3 (c # cs) else drop_scheme cs)"

definition host_of :: "string \<Rightarrow> string" where
  "host_of url = takeWhile (\<lambda>c. c \<notin> set ''/:?#'') (drop_scheme url)"

text \<open>A manifest that gives the heading of the example page a new text.\<close>

definition title_manifest :: jsval where
  "title_manifest =
     JObj [(''sections'', JArr
       [JObj [(''id'', JStr ''hero''), (''data'', JObj [(''title'', JStr ''New'')])]])]"







section \<open>Paths and queries\<close>

lemma find_path_element:
  "find_path P n = Some p \<Longrightarrow> \<exists>e cs. get_at p n = Some (Element e cs) \<and> P e"
  "find_path_list P ns = Some q \<Longrightarrow>
     \<exists>i p e cs. q = i # p \<and> i < length ns \<and> get_at p (ns ! i) = Some (Element e cs) \<and> P e"
proof (induction P n and P ns arbitrary: p and q rule: find_path_find_path_list.induct)
  case (4 P c cs)
  show ?case
  proof (cases "find_path P c")
    case (Some p)
    with 4 show ?thesis by fastforce
  next
    case None
    with 4(3) obtain i p where r: "find_path_list P cs = Some (i # p)" and q: "q = Suc i # p"
      by (auto split: option.splits list.splits)
    from 4(2)[OF None r] show ?thesis using q by auto
  qed
qed (auto split: if_splits)

lemma querySelector_element:
  "querySelector P n = Some q \<Longrightarrow> \<exists>e cs. get_at q n = Some (Element e cs) \<and> P e"
  by (cases n) (auto dest!: find_path_element(2))

lemma get_at_append:
  "get_at (p @ q) n = (case get_at p n of None \<Rightarrow> None | Some m \<Rightarrow> get_at q m)"
  by (induction p n rule: get_at.induct) auto

lemma get_at_modify_at:
  "get_at p n = Some m \<Longrightarrow> get_at p (modify_at p f n) = Some (f m)"
  by (induction p n rule: get_at.induct) (auto split: if_splits)

lemma style_target_element:
  assumes "style_target sectionId field doc = Some t"
  shows "\<exists>e cs. get_at t doc = Some (Element e cs)"
proof -
  from assms obtain p where p: "find_path (is_section sectionId) doc = Some p"
    by (auto simp: style_target_def split: option.splits)
  then obtain e cs where sec: "get_at p doc = Some (Element e cs)"
    using find_path_element(1) by blast
  show ?thesis
  proof (cases "field = ''__section''")
    case True
    with assms p sec show ?thesis by (simp add: style_target_def)
  next
    case False
    with assms p sec obtain q where q: "querySelector (attr_eq ''data-dr-style'' field) (Element e cs) = Some q"
      and t: "t = p @ q"
      by (auto simp: style_target_def split: option.splits)
    from querySelector_element[OF q] show ?thesis
      using sec t by (auto simp: get_at_append)
  qed
qed

lemma style_get_set [simp]: "style_get p (style_set p v s) = v"
  by (simp add: style_get_def style_set_def update_conv' delete_conv')

lemma map_of_style_set_other [simp]: "q \<noteq> p \<Longrightarrow> map_of (style_set p v s) q = map_of s q"
  by (simp add: style_set_def update_conv' delete_conv')

section \<open>Properties\<close>

lemma applyStyles_Text [simp]: "applyStyles css styles (Text s) = Text s"
  by (induction styles) auto

text \<open>The loop assigns the allow-listed entries, in their order, through the setter.\<close>

lemma applyStyles_fold:
  "applyStyles css styles (Element e cs)
     = Element (e\<lparr>style := fold (\<lambda>pv. css (fst pv) (snd pv)) (allowed_entries styles) (style e)\<rparr>) cs"
proof (induction styles arbitrary: e)
  case Nil
  then show ?case by (simp add: allowed_entries_def)
next
  case (Cons a styles)
  obtain p v where a: "a = (p, v)" by (cases a)
  show ?case
  proof (cases "p \<in> set allowedStyleProps")
    case True
    with a Cons[of "e\<lparr>style := css p v (style e)\<rparr>"] show ?thesis
      by (simp add: allowed_entries_def)
  next
    case False
    with a Cons[of e] show ?thesis by (simp add: allowed_entries_def)
  qed
qed

lemma allowed_entries_idem [simp]: "allowed_entries (allowed_entries styles) = allowed_entries styles"
  by (simp add: allowed_entries_def)

lemma applyStyles_allowed: "applyStyles css (allowed_entries styles) el = applyStyles css styles el"
  by (cases el) (simp_all add: applyStyles_fold)

lemma fold_stored:
  "stores_payload css xs \<Longrightarrow>
     fold (\<lambda>pv. css (fst pv) (snd pv)) xs s = fold (\<lambda>pv. style_set (fst pv) (snd pv)) xs s"
proof (induction xs arbitrary: s)
  case Nil
  then show ?case by simp
next
  case (Cons a xs)
  then have "stores_payload css xs" and "css (fst a) (snd a) s = style_set (fst a) (snd a) s"
    by (simp_all add: stores_payload_def)
  with Cons.IH show ?case by simp
qed

lemma fold_style_set_frame:
  "p \<notin> fst ` set xs \<Longrightarrow> map_of (fold (\<lambda>pv. style_set (fst pv) (snd pv)) xs s) p = map_of s p"
proof (induction xs arbitrary: s)
  case Nil
  then show ?case by simp
next
  case (Cons a xs)
  then have "p \<noteq> fst a" and "p \<notin> fst ` set xs" by auto
  with Cons.IH[of "style_set (fst a) (snd a) s"] show ?case by simp
qed

lemma fold_style_set_reflects:
  "distinct (map fst xs) \<Longrightarrow> (p, v) \<in> set xs \<Longrightarrow>
     style_get p (fold (\<lambda>pv. style_set (fst pv) (snd pv)) xs s) = v"
proof (induction xs arbitrary: s)
  case Nil
  then show ?case by simp
next
  case (Cons a xs)
  show ?case
  proof (cases "a = (p, v)")
    case True
    with Cons.prems have "p \<notin> fst ` set xs" by auto
    then have "map_of (fold (\<lambda>pv. style_set (fst pv) (snd pv)) xs (style_set p v s)) p
        = map_of (style_set p v s) p"
      by (rule fold_style_set_frame)
    then have "style_get p (fold (\<lambda>pv. style_set (fst pv) (snd pv)) xs (style_set p v s))
        = style_get p (style_set p v s)"
      by (simp only: style_get_def)
    with True show ?thesis by simp
  next
    case False
    with Cons.prems have "(p, v) \<in> set xs" and "distinct (map fst xs)" by auto
    with Cons.IH show ?thesis by simp
  qed
qed

lemma modify_at_const:
  "get_at p d = Some n \<Longrightarrow> modify_at p f d = modify_at p (\<lambda>_. f n) d"
  by (induction p d rule: get_at.induct) (auto split: if_splits)

subsection \<open>The Value Applier ignores null and undefined\<close>

text \<open>
  Claim C7. Applying a value that is null or undefined through the Value Applier of
  the embedded channel (\<^verbatim>\<open>updateFieldElement\<close>) or of the remote hydration channel
  (\<^verbatim>\<open>updateField\<close>) returns the container as it was: the located field node keeps its
  content (text, image source, link target) and its visibility, and so does every other
  node.
\<close>

theorem null_value_leaves_container_unchanged:
  "updateFieldElement container field JNull = container
   \<and> updateFieldElement container field JUndefined = container
   \<and> updateField container field JNull = container
   \<and> updateField container field JUndefined = container"
  by (simp add: updateFieldElement_def updateField_def split: option.splits)

subsection \<open>The Style Patcher and its allow list\<close>

text \<open>
  Claim C6, as amended. Take a style update whose section id and field name are safe
  for the selector and whose target node is located. The node afterwards is the same
  element, with the inline style that comes from assigning the allow-listed entries of
  the payload, in their order, through the browser's style setter; nothing else of the
  document changes. The entries whose property is not on the allow list are never
  assigned: the update does what it does without them, also when both kinds come in
  one payload, and there is no error to raise. When the browser stores the allow-listed
  entries as given (each value parses for its property and is in normal form), each of
  them has the payload's value in the style afterwards, and every property name that is
  not on the allow list, or not in the payload, has the value it had before. The
  property names of a payload are distinct, as the keys of an object are.
\<close>

theorem style_update_respects_allow_list:
  assumes "selector_safe sectionId"
      and "selector_safe field"
      and "style_target sectionId field doc = Some t"
  shows "\<exists>e cs sty.
           get_at t doc = Some (Element e cs)
         \<and> sty = fold (\<lambda>pv. css (fst pv) (snd pv)) (allowed_entries styles) (style e)
         \<and> handleStyleUpdate css sectionId field styles doc
             = modify_at t (\<lambda>_. Element (e\<lparr>style := sty\<rparr>) cs) doc
         \<and> get_at t (handleStyleUpdate css sectionId field styles doc)
             = Some (Element (e\<lparr>style := sty\<rparr>) cs)
         \<and> handleStyleUpdate css sectionId field styles doc
             = handleStyleUpdate css sectionId field (allowed_entries styles) doc
         \<and> (stores_payload css (allowed_entries styles) \<and> distinct (map fst styles) \<longrightarrow>
              (\<forall>p v. (p, v) \<in> set styles \<and> p \<in> set allowedStyleProps \<longrightarrow> style_get p sty = v)
            \<and> (\<forall>p. p \<notin> set allowedStyleProps \<or> p \<notin> fst ` set styles \<longrightarrow>
                  map_of sty p = map_of (style e) p))"
proof -
  from style_target_element[OF assms(3)] obtain e cs where el: "get_at t doc = Some (Element e cs)"
    by blast
  define sty where "sty = fold (\<lambda>pv. css (fst pv) (snd pv)) (allowed_entries styles) (style e)"
  have applied: "applyStyles css styles (Element e cs) = Element (e\<lparr>style := sty\<rparr>) cs"
    by (simp add: applyStyles_fold sty_def)
  have whole: "handleStyleUpdate css sectionId field styles doc
      = modify_at t (\<lambda>_. Element (e\<lparr>style := sty\<rparr>) cs) doc"
    using assms(3) modify_at_const[OF el, of "applyStyles css styles"] applied
    by (simp add: handleStyleUpdate_def)
  have after: "get_at t (handleStyleUpdate css sectionId field styles doc)
      = Some (Element (e\<lparr>style := sty\<rparr>) cs)"
    using whole el by (simp add: get_at_modify_at)
  have skipped: "handleStyleUpdate css sectionId field styles doc
      = handleStyleUpdate css sectionId field (allowed_entries styles) doc"
  proof -
    have "applyStyles css (allowed_entries styles) = applyStyles css styles"
      by (rule ext) (rule applyStyles_allowed)
    then show ?thesis by (simp add: handleStyleUpdate_def split: option.splits)
  qed
  have stored: "stores_payload css (allowed_entries styles) \<and> distinct (map fst styles) \<longrightarrow>
      (\<forall>p v. (p, v) \<in> set styles \<and> p \<in> set allowedStyleProps \<longrightarrow> style_get p sty = v)
    \<and> (\<forall>p. p \<notin> set allowedStyleProps \<or> p \<notin> fst ` set styles \<longrightarrow>
          map_of sty p = map_of (style e) p)"
  proof
    assume h: "stores_payload css (allowed_entries styles) \<and> distinct (map fst styles)"
    then have sty: "sty = fold (\<lambda>pv. style_set (fst pv) (snd pv)) (allowed_entries styles) (style e)"
      by (simp add: sty_def fold_stored)
    have d: "distinct (map fst (allowed_entries styles))"
      using h by (simp add: allowed_entries_def distinct_map_filter)
    have refl: "\<forall>p v. (p, v) \<in> set styles \<and> p \<in> set allowedStyleProps \<longrightarrow> style_get p sty = v"
    proof (intro allI impI)
      fix p v assume "(p, v) \<in> set styles \<and> p \<in> set allowedStyleProps"
      then have "(p, v) \<in> set (allowed_entries styles)" by (simp add: allowed_entries_def)
      with d show "style_get p sty = v" unfolding sty by (rule fold_style_set_reflects)
    qed
    have frame: "\<forall>p. p \<notin> set allowedStyleProps \<or> p \<notin> fst ` set styles \<longrightarrow>
          map_of sty p = map_of (style e) p"
    proof (intro allI impI)
      fix p assume "p \<notin> set allowedStyleProps \<or> p \<notin> fst ` set styles"
      then have "p \<notin> fst ` set (allowed_entries styles)"
        by (auto simp: allowed_entries_def)
      then show "map_of sty p = map_of (style e) p" unfolding sty by (rule fold_style_set_frame)
    qed
    from refl frame show "(\<forall>p v. (p, v) \<in> set styles \<and> p \<in> set allowedStyleProps \<longrightarrow> style_get p sty = v)
      \<and> (\<forall>p. p \<notin> set allowedStyleProps \<or> p \<notin> fst ` set styles \<longrightarrow>
            map_of sty p = map_of (style e) p)" by blast
  qed
  from el whole after skipped stored show ?thesis
    using sty_def by blast
qed

theorem style_update_respects_allow_list_witness:
  "selector_safe ''hero'' \<and> selector_safe ''title''
   \<and> style_target ''hero'' ''title'' example_page = Some [0, 0]
   \<and> stores_payload example_css (allowed_entries [(''color'', ''red''), (''position'', ''fixed'')])
   \<and> distinct (map fst [(''color'', ''red''), (''position'', ''fixed'')])
   \<and> (\<exists>e cs sty.
         get_at [0, 0] example_page = Some (Element e cs)
       \<and> get_at [0, 0] (handleStyleUpdate example_css ''hero'' ''title''
            [(''color'', ''red''), (''position'', ''fixed'')] example_page)
          = Some (Element (e\<lparr>style := sty\<rparr>) cs)
       \<and> style_get ''color'' sty = ''red''
       \<and> map_of sty ''position'' = map_of (style e) ''position'')
   \<and> style_at [0, 0] ''color'' (handleStyleUpdate example_css ''hero'' ''title''
        [(''color'', ''red''), (''position'', ''fixed'')] example_page) = ''red''
   \<and> style_at [0, 0] ''position'' (handleStyleUpdate example_css ''hero'' ''title''
        [(''color'', ''red''), (''position'', ''fixed'')] example_page) = []"
proof -
  let ?P = "[(''color'', ''red''), (''position'', ''fixed'')]"
  have a: "selector_safe ''hero''" and b: "selector_safe ''title''"
    by (simp_all add: selector_safe_def)
  have t: "style_target ''hero'' ''title'' example_page = Some [0, 0]"
    by code_simp
  have ae: "allowed_entries ?P = [(''color'', ''red'')]"
    by (simp add: allowed_entries_def allowedStyleProps_def)
  have st: "stores_payload example_css (allowed_entries ?P)"
    unfolding ae by (simp add: stores_payload_def example_css_def)
  have d: "distinct (map fst ?P)"
    by simp
  have mem: "(''color'', ''red'') \<in> set ?P \<and> ''color'' \<in> set allowedStyleProps"
    by (simp add: allowedStyleProps_def)
  have non: "''position'' \<notin> set allowedStyleProps \<or> ''position'' \<notin> fst ` set ?P"
    by (simp add: allowedStyleProps_def)
  have shown: "style_at [0, 0] ''color'' (handleStyleUpdate example_css ''hero'' ''title'' ?P example_page) = ''red''"
    "style_at [0, 0] ''position'' (handleStyleUpdate example_css ''hero'' ''title'' ?P example_page) = []"
    by code_simp+
  from style_update_respects_allow_list[OF a b t, of example_css ?P]
  obtain e cs sty where
    "get_at [0, 0] example_page = Some (Element e cs)"
    "get_at [0, 0] (handleStyleUpdate example_css ''hero'' ''title'' ?P example_page)
       = Some (Element (e\<lparr>style := sty\<rparr>) cs)"
    "stores_payload example_css (allowed_entries ?P) \<and> distinct (map fst ?P) \<longrightarrow>
       (\<forall>p v. (p, v) \<in> set ?P \<and> p \<in> set allowedStyleProps \<longrightarrow> style_get p sty = v)
     \<and> (\<forall>p. p \<notin> set allowedStyleProps \<or> p \<notin> fst ` set ?P \<longrightarrow> map_of sty p = map_of (style e) p)"
    by blast
  with st d mem non have "\<exists>e cs sty.
         get_at [0, 0] example_page = Some (Element e cs)
       \<and> get_at [0, 0] (handleStyleUpdate example_css ''hero'' ''title'' ?P example_page)
          = Some (Element (e\<lparr>style := sty\<rparr>) cs)
       \<and> style_get ''color'' sty = ''red''
       \<and> map_of sty ''position'' = map_of (style e) ''position''"
    by blast
  with a b t st d shown show ?thesis by blast
qed

text \<open>
  Claim C6 as stated fails for a value that the browser does not parse: \<^verbatim>\<open>color\<close> is
  on the allow list and comes in the payload, the update locates the heading and
  assigns the value, and the heading has no colour afterwards.
\<close>

theorem unparsed_value_is_not_reflected:
  "style_target ''hero'' ''title'' example_page = Some [0, 0]
   \<and> ''color'' \<in> set allowedStyleProps
   \<and> style_at [0, 0] ''color''
       (handleStyleUpdate example_css ''hero'' ''title'' [(''color'', ''notacolor'')] example_page) = []"
  by code_simp

section \<open>The embedded channel as a state machine\<close>

lemma sendToParent_fields [simp]:
  "parentOrigin (sendToParent m st) = parentOrigin st"
  "locationOrigin (sendToParent m st) = locationOrigin st"
  "hasParent (sendToParent m st) = hasParent st"
  "dom (sendToParent m st) = dom st"
  by (simp_all add: sendToParent_def)

lemma sendToParent_posted:
  "\<exists>new. posted (sendToParent m st) = posted st @ new \<and> (\<forall>mt\<in>set new. snd mt = parentOrigin st)"
  by (simp add: sendToParent_def)

lemma posts_refl [simp]: "posts_to_parent st st"
  by (simp add: posts_to_parent_def)

lemma posts_trans: "posts_to_parent a b \<Longrightarrow> posts_to_parent b c \<Longrightarrow> posts_to_parent a c"
  by (fastforce simp: posts_to_parent_def)

lemma posts_dom [simp]: "posts_to_parent st (st\<lparr>dom := d\<rparr>)"
  by (simp add: posts_to_parent_def)

lemma posts_send: "posts_to_parent st (sendToParent m st)"
  by (simp add: posts_to_parent_def sendToParent_def)

lemma posts_run_listener: "posts_to_parent st (run_listener l el st)"
proof (cases l)
  case FocusEdit
  then show ?thesis
    by (auto simp: Let_def split: option.splits intro: posts_trans[OF posts_dom posts_send])
next
  case BlurEdit
  then show ?thesis
    by (auto simp: Let_def split: option.splits intro: posts_trans[OF posts_dom posts_send])
next
  case InputEdit
  then show ?thesis by (auto split: option.splits intro: posts_send)
next
  case ImgClick
  then show ?thesis
    by (auto split: option.splits intro: posts_trans[OF posts_send posts_send])
qed auto

lemma posts_fold:
  "(\<And>x s. posts_to_parent s (f x s)) \<Longrightarrow> posts_to_parent st (fold f xs st)"
proof (induction xs arbitrary: st)
  case Nil
  then show ?case by simp
next
  case (Cons x xs)
  have "posts_to_parent st (f x st)" by (rule Cons.prems)
  moreover have "posts_to_parent (f x st) (fold f xs (f x st))"
    by (rule Cons.IH) (rule Cons.prems)
  ultimately show ?case using posts_trans by simp
qed

lemma posts_fire: "posts_to_parent st (fire k el st)"
  unfolding fire_def by (rule posts_fold) (rule posts_run_listener)

lemma posts_user_step: "posts_to_parent st (user_step ue st)"
proof (cases ue)
  case (Input el)
  then show ?thesis by (simp add: posts_fold posts_fire)
next
  case (Click el)
  then show ?thesis by (auto simp: click_def posts_fire posts_send split: option.splits)
qed (simp_all add: posts_fire)

lemma handleMessage_rejected: "\<not> accepted (locationOrigin st) (origin event) \<Longrightarrow> handleMessage event st = st"
  by (simp add: handleMessage_def)

lemma handleFullUpdate_fields [simp]:
  "parentOrigin (handleFullUpdate dat sections st) = parentOrigin st"
  "locationOrigin (handleFullUpdate dat sections st) = locationOrigin st"
  "posted (handleFullUpdate dat sections st) = posted st"
  by (simp_all add: handleFullUpdate_def Let_def)

lemma handleFieldUpdate_fields [simp]:
  "parentOrigin (handleFieldUpdate sectionId field v st) = parentOrigin st"
  "locationOrigin (handleFieldUpdate sectionId field v st) = locationOrigin st"
  "posted (handleFieldUpdate sectionId field v st) = posted st"
  by (simp_all add: handleFieldUpdate_def split: option.splits jsval.splits)

lemma called_fields [simp]:
  "parentOrigin (called h st) = parentOrigin st"
  "locationOrigin (called h st) = locationOrigin st"
  "posted (called h st) = posted st"
  by (simp_all add: called_def)

lemma handleMessage_fields:
  "locationOrigin (handleMessage event st) = locationOrigin st"
  "posted (handleMessage event st) = posted st"
  "parentOrigin (handleMessage event st) =
     (if accepted (locationOrigin st) (origin event) \<and> parentOrigin st = ''*''
      then origin event else parentOrigin st)"
  by (simp_all add: handleMessage_def Let_def split: inmsg.splits option.splits)

lemma posts_step:
  assumes "\<forall>m. ev = Message m \<longrightarrow> parentOrigin st \<noteq> ''*'' \<or> \<not> accepted (locationOrigin st) (origin m)"
  shows "posts_to_parent st (step ev st)"
proof (cases ev)
  case (Message m)
  with assms show ?thesis by (auto simp: posts_to_parent_def handleMessage_fields)
next
  case (User ue)
  then show ?thesis by (simp add: posts_user_step)
qed

lemma posts_run:
  "\<forall>ev\<in>set evs. \<forall>m. ev = Message m \<longrightarrow> parentOrigin st \<noteq> ''*'' \<or> \<not> accepted (locationOrigin st) (origin m)
   \<Longrightarrow> posts_to_parent st (run evs st)"
proof (induction evs arbitrary: st)
  case Nil
  then show ?case by (simp add: run_def)
next
  case (Cons ev evs)
  have one: "posts_to_parent st (step ev st)"
    by (rule posts_step) (use Cons.prems in auto)
  then have same: "parentOrigin (step ev st) = parentOrigin st" "locationOrigin (step ev st) = locationOrigin st"
    by (simp_all add: posts_to_parent_def)
  have "posts_to_parent (step ev st) (run evs (step ev st))"
    by (rule Cons.IH) (use Cons.prems same in auto)
  with one show ?case using posts_trans by (simp add: run_def)
qed

subsection \<open>Messages from untrusted origins\<close>




subsection \<open>The parent origin\<close>

text \<open>
  Claim C5. The first message that passes the origin filter latches the parent origin
  to its origin, which is not the wildcard. Whatever follows (further messages from any
  origin, accepted or not, and user events), the parent origin stays that origin, and
  every outbound event emitted from then on is posted to it and to nothing else.
\<close>

theorem parent_origin_latched_once:
  assumes "parentOrigin st = ''*''"
      and "locationOrigin st \<noteq> ''*''"
      and "accepted (locationOrigin st) (origin event)"
  shows "parentOrigin (handleMessage event st) = origin event
       \<and> origin event \<noteq> ''*''
       \<and> parentOrigin (run evs (handleMessage event st)) = origin event
       \<and> (\<exists>new. posted (run evs (handleMessage event st)) = posted (handleMessage event st) @ new
              \<and> (\<forall>mt\<in>set new. snd mt = origin event))"
proof -
  let ?s = "handleMessage event st"
  have latch: "parentOrigin ?s = origin event"
    using assms by (simp add: handleMessage_fields)
  have star: "origin event \<noteq> ''*''"
    using assms(2,3) by (auto simp: accepted_def endsWith_def)
  have "posts_to_parent ?s (run evs ?s)"
    by (rule posts_run) (use latch star in simp)
  with latch star show ?thesis by (simp add: posts_to_parent_def)
qed

theorem parent_origin_latched_once_witness:
  "parentOrigin example_state = ''*''
   \<and> locationOrigin example_state \<noteq> ''*''
   \<and> accepted (locationOrigin example_state) ''https://admin.example''
   \<and> parentOrigin (handleMessage \<lparr>origin = ''https://admin.example'', data = NoMessage\<rparr> example_state)
       = ''https://admin.example''
   \<and> parentOrigin (run [Message \<lparr>origin = ''https://other.example'', data = NoMessage\<rparr>, User (Click [0])]
        (handleMessage \<lparr>origin = ''https://admin.example'', data = NoMessage\<rparr> example_state))
       = ''https://admin.example''
   \<and> (\<exists>new. posted (run [Message \<lparr>origin = ''https://other.example'', data = NoMessage\<rparr>, User (Click [0])]
                (handleMessage \<lparr>origin = ''https://admin.example'', data = NoMessage\<rparr> example_state))
              = posted (handleMessage \<lparr>origin = ''https://admin.example'', data = NoMessage\<rparr> example_state) @ new
          \<and> (\<forall>mt\<in>set new. snd mt = ''https://admin.example''))"
proof -
  have a: "parentOrigin example_state = ''*''"
    by (simp add: example_state_def initial_state_def)
  have b: "locationOrigin example_state \<noteq> ''*''"
    by (simp add: example_state_def initial_state_def)
  have c: "accepted (locationOrigin example_state)
             (origin \<lparr>origin = ''https://admin.example'', data = NoMessage\<rparr>)"
    by (simp add: example_state_def initial_state_def accepted_def)
  from parent_origin_latched_once[OF a b c,
      of "[Message \<lparr>origin = ''https://other.example'', data = NoMessage\<rparr>, User (Click [0])]"] a b c
  show ?thesis by simp
qed

text \<open>
  Claim C10. Activation posts \<^verbatim>\<open>ready\<close> with the wildcard as target origin (when the
  page has a parent window). As long as no inbound message is accepted, the parent
  origin remains the wildcard and every outbound event is posted with the wildcard as
  target origin.
\<close>

theorem wildcard_until_first_accepted_message:
  assumes "\<forall>ev\<in>set evs. \<forall>m. ev = Message m \<longrightarrow> \<not> accepted own (origin m)"
  shows "posted (initPreviewRuntime (initial_state d own embedded r css))
           = (if embedded then [(Ready, ''*'')] else [])
       \<and> parentOrigin (run evs (initPreviewRuntime (initial_state d own embedded r css))) = ''*''
       \<and> (\<forall>mt\<in>set (posted (run evs (initPreviewRuntime (initial_state d own embedded r css)))). snd mt = ''*'')"
proof -
  let ?s = "initPreviewRuntime (initial_state d own embedded r css)"
  have ready: "posted ?s = (if embedded then [(Ready, ''*'')] else [])"
    by (simp add: initPreviewRuntime_def initial_state_def sendToParent_def Let_def)
  have po: "parentOrigin ?s = ''*''" and lo: "locationOrigin ?s = own"
    by (simp_all add: initPreviewRuntime_def initial_state_def Let_def)
  have "posts_to_parent ?s (run evs ?s)"
    by (rule posts_run) (use assms lo in auto)
  then have "parentOrigin (run evs ?s) = ''*''"
    and "\<exists>new. posted (run evs ?s) = posted ?s @ new \<and> (\<forall>mt\<in>set new. snd mt = ''*'')"
    using po by (simp_all add: posts_to_parent_def)
  with ready show ?thesis by auto
qed

theorem wildcard_until_first_accepted_message_witness:
  "\<not> accepted ''https://site.example'' ''http://evil.example''
   \<and> posted (initPreviewRuntime example_state) = [(Ready, ''*'')]
   \<and> parentOrigin (run [Message \<lparr>origin = ''http://evil.example'', data = SectionToggle ''hero'' False\<rparr>,
                        User (Click [0])] (initPreviewRuntime example_state)) = ''*''
   \<and> posted (run [Message \<lparr>origin = ''http://evil.example'', data = SectionToggle ''hero'' False\<rparr>,
                  User (Click [0])] (initPreviewRuntime example_state))
       = [(Ready, ''*''), (Deselect, ''*'')]"
proof -
  have rej: "\<not> accepted ''https://site.example'' ''http://evil.example''"
    by (simp add: accepted_def endsWith_def)
  then have h: "\<forall>ev\<in>set [Message \<lparr>origin = ''http://evil.example'', data = SectionToggle ''hero'' False\<rparr>,
               User (Click [0])].
      \<forall>m. ev = Message m \<longrightarrow> \<not> accepted ''https://site.example'' (origin m)"
    by simp
  have sent: "posted (run [Message \<lparr>origin = ''http://evil.example'', data = SectionToggle ''hero'' False\<rparr>,
                  User (Click [0])] (initPreviewRuntime example_state))
       = [(Ready, ''*''), (Deselect, ''*'')]"
    by code_simp
  from wildcard_until_first_accepted_message[OF h, of example_page True "\<lambda>u. u" example_css] rej sent
  show ?thesis by (simp add: example_state_def)
qed

subsection \<open>Binding the Inline Edit Surface again\<close>

text \<open>
  Claim C9 does not hold of the code. After activation has bound the heading of the
  example page, one full update binds it again, and a single input event on it then
  emits two \<^verbatim>\<open>field-edited\<close> events.
\<close>

theorem rebinding_duplicates_listeners:
  "posted (run [Message \<lparr>origin = ''https://admin.example'',
                          data = FullUpdate [(''hero'', [(''title'', JStr ''New'')])] [(''hero'', True)]\<rparr>,
                User (Input [0, 0])]
            (initPreviewRuntime example_state))
   = [(Ready, ''*''),
      (FieldEdited ''hero'' ''title'' ''New'', ''https://admin.example''),
      (FieldEdited ''hero'' ''title'' ''New'', ''https://admin.example'')]"
  by code_simp

section \<open>The List Reconciler\<close>

lemma find_path_list_None: "find_path_list P cs = None \<longleftrightarrow> (\<forall>c\<in>set cs. find_path P c = None)"
proof (induction cs)
  case Nil
  then show ?case by simp
next
  case (Cons c cs)
  show ?case
  proof (cases "find_path P c")
    case (Some p)
    then show ?thesis by simp
  next
    case None
    show ?thesis
    proof (cases "find_path_list P cs")
      case None': None
      with None Cons show ?thesis by simp
    next
      case (Some q)
      with find_path_element(2)[OF Some] obtain i p where "q = i # p" by blast
      with None Some Cons show ?thesis by auto
    qed
  qed
qed

lemma find_path_list_append:
  "\<forall>c\<in>set xs. find_path P c = None \<Longrightarrow> find_path P y = Some p \<Longrightarrow>
     find_path_list P (xs @ y # ys) = Some (length xs # p)"
  by (induction xs) auto

lemma find_path_stable:
  "\<forall>n. matches P n \<longrightarrow> matches P (f n) \<Longrightarrow> find_path P n = Some p \<Longrightarrow>
     find_path P (modify_at p f n) = Some p"
  "\<forall>n. matches P n \<longrightarrow> matches P (f n) \<Longrightarrow> find_path_list P cs = Some q \<Longrightarrow>
     \<exists>i p. q = i # p \<and> i < length cs \<and> find_path_list P (cs[i := modify_at p f (cs ! i)]) = Some q"
proof (induction P n and P cs arbitrary: p and q rule: find_path_find_path_list.induct)
  case (1 P s)
  then show ?case by simp
next
  case (2 P e cs)
  show ?case
  proof (cases "P e")
    case True
    with 2(3) have "p = []" by simp
    moreover from 2(2) True have "matches P (f (Element e cs))" by simp
    then have "find_path P (f (Element e cs)) = Some []"
      by (cases "f (Element e cs)") auto
    ultimately show ?thesis by simp
  next
    case False
    with 2(3) have l: "find_path_list P cs = Some p" by simp
    from 2(1)[OF False 2(2) l] obtain i p' where "p = i # p'" "i < length cs"
      "find_path_list P (cs[i := modify_at p' f (cs ! i)]) = Some p" by blast
    with False show ?thesis by simp
  qed
next
  case (3 P)
  then show ?case by simp
next
  case (4 P c cs)
  show ?case
  proof (cases "find_path P c")
    case (Some p)
    with 4(4) have q: "q = 0 # p" by simp
    from 4(1)[OF 4(3) Some] have "find_path P (modify_at p f c) = Some p" .
    with q show ?thesis by simp
  next
    case None
    with 4(4) obtain i p where r: "find_path_list P cs = Some (i # p)" and q: "q = Suc i # p"
      by (auto split: option.splits list.splits)
    from 4(2)[OF None 4(3) r] have "i < length cs"
      "find_path_list P (cs[i := modify_at p f (cs ! i)]) = Some (i # p)" by auto
    with None q show ?thesis by simp
  qed
qed

lemma querySelector_stable:
  assumes "\<forall>n. matches P n \<longrightarrow> matches P (f n)" and "querySelector P n = Some q"
  shows "querySelector P (modify_at q f n) = Some q"
proof (cases n)
  case (Text s)
  with assms(2) show ?thesis by simp
next
  case (Element e cs)
  with assms(2) have "find_path_list P cs = Some q" by simp
  from find_path_stable(2)[OF assms(1) this] Element show ?thesis by auto
qed

lemma modify_at_twice: "modify_at q f (modify_at q g n) = modify_at q (\<lambda>x. f (g x)) n"
proof (induction q arbitrary: n)
  case Nil
  then show ?case by simp
next
  case (Cons i q)
  then show ?case by (cases n) auto
qed

lemma set_textContent_twice [simp]: "set_textContent s (set_textContent t n) = set_textContent s n"
  by (cases n) auto

lemma matches_set_textContent [simp]: "matches P (set_textContent s n) = matches P n"
  by (cases n) auto

lemma cloneNode_idem [simp]: "cloneNode (cloneNode n) = cloneNode n"
  by (induction n) auto

lemma cloneNode_set_textContent: "cloneNode (set_textContent s n) = set_textContent s (cloneNode n)"
  by (cases n) auto

lemma cloneNode_modify_at:
  "cloneNode (modify_at q (set_textContent s) n) = modify_at q (set_textContent s) (cloneNode n)"
proof (induction q arbitrary: n)
  case Nil
  then show ?case by (simp add: cloneNode_set_textContent)
next
  case (Cons i q)
  then show ?case by (cases n) (auto simp: map_update)
qed


lemma find_path_cloneNode:
  "\<forall>e. P (e\<lparr>listeners := [], highlighted := False\<rparr>) = P e \<Longrightarrow>
     find_path P (cloneNode n) = find_path P n"
  "\<forall>e. P (e\<lparr>listeners := [], highlighted := False\<rparr>) = P e \<Longrightarrow>
     find_path_list P (map cloneNode cs) = find_path_list P cs"
  by (induction P n and P cs rule: find_path_find_path_list.induct) (auto split: option.splits)

lemma clone_invariant [simp]:
  "has_attr a (e\<lparr>listeners := ls, highlighted := h\<rparr>) = has_attr a e"
  "attr_eq a v (e\<lparr>listeners := ls, highlighted := h\<rparr>) = attr_eq a v e"
  "is_list_item (e\<lparr>listeners := ls, highlighted := h\<rparr>) = is_list_item e"
  by (simp_all add: has_attr_def attr_eq_def is_list_item_def)

lemma querySelector_cloneNode:
  "\<forall>e. P (e\<lparr>listeners := [], highlighted := False\<rparr>) = P e \<Longrightarrow>
     querySelector P (cloneNode n) = querySelector P n"
  by (cases n) (simp_all add: find_path_cloneNode(2))

lemma matches_cloneNode:
  "\<forall>e. P (e\<lparr>listeners := [], highlighted := False\<rparr>) = P e \<Longrightarrow>
     matches P (cloneNode n) = matches P n"
  by (cases n) simp_all

lemma matches_remove_items [simp]: "matches P (remove_items n) = matches P n"
  by (cases n) simp_all

lemma find_path_remove_items:
  "\<not> matches is_list_item n \<Longrightarrow> find_path is_list_item (remove_items n) = None"
proof (induction n)
  case (Text s)
  then show ?case by simp
next
  case (Element e cs)
  then show ?case by (auto simp: find_path_list_None)
qed

lemma no_item_below_remove_items [simp]:
  "find_path_list is_list_item (map remove_items (filter (\<lambda>c. \<not> matches is_list_item c) cs)) = None"
  by (auto simp: find_path_list_None find_path_remove_items)

lemma querySelector_remove_items [simp]: "querySelector is_list_item (remove_items n) = None"
  by (cases n) simp_all

lemma remove_items_idem [simp]: "remove_items (remove_items n) = remove_items n"
proof (induction n)
  case (Text s)
  then show ?case by simp
next
  case (Element e cs)
  have "filter (\<lambda>c. \<not> matches is_list_item c) (map remove_items (filter (\<lambda>c. \<not> matches is_list_item c) cs))
        = map remove_items (filter (\<lambda>c. \<not> matches is_list_item c) cs)"
    by (simp add: filter_map comp_def)
  moreover have "map remove_items (map remove_items (filter (\<lambda>c. \<not> matches is_list_item c) cs))
        = map remove_items (filter (\<lambda>c. \<not> matches is_list_item c) cs)"
    using Element by simp
  ultimately show ?case by simp
qed

lemma item_nodes_remove_items [simp]: "item_nodes (remove_items n) = []"
proof (induction n)
  case (Text s)
  then show ?case by simp
next
  case (Element e cs)
  then show ?case by simp
qed

lemma append_items_eq:
  "append_items T items (Element e cs) = Element e (cs @ map (populate T) items)"
  by (induction items arbitrary: cs) auto

lemma populate_scalar:
  "scalar d \<Longrightarrow> populate T d =
     (case querySelector (has_attr ''data-dr-field'') (cloneNode T) of
        None \<Rightarrow> cloneNode T
      | Some q \<Rightarrow> modify_at q (set_textContent (js_String d)) (cloneNode T))"
  by (auto simp: populate_def scalar_def Let_def)

lemma matches_modify_below:
  assumes "querySelector Q n = Some q"
  shows "matches P (modify_at q f n) = matches P n"
proof (cases n)
  case (Text s)
  with assms show ?thesis by simp
next
  case (Element e cs)
  with assms obtain i p where "q = i # p"
    using find_path_element(2)[of Q cs q] by auto
  with Element show ?thesis by simp
qed

lemma find_path_None_item_nodes:
  "find_path is_list_item n = None \<Longrightarrow> item_nodes n = []"
proof (induction n)
  case (Text s)
  then show ?case by simp
next
  case (Element e cs)
  then have below: "\<forall>c\<in>set cs. find_path is_list_item c = None"
    by (simp add: find_path_list_None split: if_splits)
  have "\<forall>c\<in>set cs. \<not> matches is_list_item c"
  proof
    fix c assume "c \<in> set cs"
    with below have "find_path is_list_item c = None" by simp
    then show "\<not> matches is_list_item c" by (cases c) (auto split: if_splits)
  qed
  with below Element.IH show ?case by simp
qed

lemma no_item_item_nodes:
  assumes "find_path_list is_list_item cs = None"
  shows "item_nodes (Element e cs) = []"
proof -
  have "\<forall>c\<in>set cs. find_path is_list_item c = None"
    using assms by (simp add: find_path_list_None)
  moreover have "\<forall>c\<in>set cs. \<not> matches is_list_item c"
  proof
    fix c assume "c \<in> set cs"
    with calculation have "find_path is_list_item c = None" by simp
    then show "\<not> matches is_list_item c" by (cases c) (auto split: if_splits)
  qed
  ultimately show ?thesis by (simp add: find_path_None_item_nodes)
qed

lemma matches_fill_sub_fields: "matches P (fill_sub_fields key es n) = matches P n"
proof (induction es arbitrary: n)
  case Nil
  then show ?case by simp
next
  case (Cons a es)
  obtain k v where a: "a = (k, v)" by (cases a)
  show ?case using a Cons
    by (auto simp: matches_modify_below split: option.splits)
qed

lemma matches_fill_fields: "matches P (fill_fields d es n) = matches P n"
proof (induction es arbitrary: n)
  case Nil
  then show ?case by simp
next
  case (Cons a es)
  obtain k v where a: "a = (k, v)" by (cases a)
  show ?case using a Cons
    by (auto simp: matches_modify_below matches_fill_sub_fields split: option.splits)
qed

lemma matches_populate: "matches is_list_item (populate T d) = matches is_list_item T"
  by (auto simp: populate_def Let_def matches_cloneNode matches_modify_below matches_fill_fields
      split: option.splits)

lemma cloneNode_populate: "scalar d \<Longrightarrow> cloneNode (populate T d) = populate T d"
  by (auto simp: populate_scalar cloneNode_modify_at split: option.splits)

lemma populate_populate:
  assumes "scalar d0" and "scalar d"
  shows "populate (populate T d0) d = populate T d"
proof (cases "querySelector (has_attr ''data-dr-field'') (cloneNode T)")
  case None
  then have "populate T d0 = cloneNode T" "populate T d = cloneNode T"
    using assms by (simp_all add: populate_scalar)
  then show ?thesis using None assms by (simp add: populate_scalar)
next
  case (Some q)
  let ?X = "cloneNode T"
  let ?Y = "modify_at q (set_textContent (js_String d0)) ?X"
  have y: "populate T d0 = ?Y" using Some assms by (simp add: populate_scalar)
  have cy: "cloneNode ?Y = ?Y" by (simp add: cloneNode_modify_at)
  have "querySelector (has_attr ''data-dr-field'') ?Y = Some q"
    by (rule querySelector_stable) (use Some in simp_all)
  then have "populate ?Y d = modify_at q (set_textContent (js_String d)) ?Y"
    using assms cy by (simp add: populate_scalar)
  also have "\<dots> = modify_at q (set_textContent (js_String d)) ?X"
    by (simp add: modify_at_twice)
  also have "\<dots> = populate T d" using Some assms by (simp add: populate_scalar)
  finally show ?thesis using y by simp
qed

text \<open>
  What two reconciliations in a row do to a container that has an item: the second one
  differs from the first only in its template, which is the first item the first one
  rendered.
\<close>

lemma reconcile_twice:
  assumes "find_path_list is_list_item cs = Some p"
  shows "\<exists>T. matches is_list_item T
           \<and> reconcile_list items (Element e cs)
               = Element e (map remove_items (filter (\<lambda>c. \<not> matches is_list_item c) cs)
                            @ map (populate T) items)
           \<and> reconcile_list items (reconcile_list items (Element e cs))
               = Element e (map remove_items (filter (\<lambda>c. \<not> matches is_list_item c) cs)
                            @ map (populate (case items of [] \<Rightarrow> T
                                             | d0 # ds \<Rightarrow> cloneNode (populate T d0))) items)"
proof -
  from find_path_element(2)[OF assms] obtain i p' te tcs where
    p: "p = i # p'" "i < length cs" "get_at p' (cs ! i) = Some (Element te tcs)" "is_list_item te"
    by blast
  let ?T = "cloneNode (Element te tcs)"
  let ?cs0 = "map remove_items (filter (\<lambda>c. \<not> matches is_list_item c) cs)"
  have mT: "matches is_list_item ?T" using p(4) by simp
  have once: "reconcile_list items (Element e cs) = Element e (?cs0 @ map (populate ?T) items)"
    using assms p by (simp add: reconcile_list_def append_items_eq)
  have twice: "reconcile_list items (Element e (?cs0 @ map (populate ?T) items))
      = Element e (?cs0 @ map (populate (case items of [] \<Rightarrow> ?T
                                         | d0 # ds \<Rightarrow> cloneNode (populate ?T d0))) items)"
  proof (cases items)
    case Nil
    then show ?thesis by (simp add: reconcile_list_def)
  next
    case (Cons d0 ds)
    let ?N0 = "populate ?T d0"
    have new_items: "\<forall>d\<in>set items. matches is_list_item (populate ?T d)"
      using mT by (simp add: matches_populate)
    have "matches is_list_item ?N0" using mT by (simp add: matches_populate)
    then have f0: "find_path is_list_item ?N0 = Some []"
      by (cases ?N0) auto
    have none0: "\<forall>c\<in>set ?cs0. find_path is_list_item c = None"
      using no_item_below_remove_items[of cs] by (simp only: find_path_list_None)
    have first: "find_path_list is_list_item (?cs0 @ map (populate ?T) items) = Some [length ?cs0]"
      using find_path_list_append[OF none0 f0] Cons by simp
    have got: "get_at [length ?cs0] (Element e (?cs0 @ map (populate ?T) items)) = Some ?N0"
      using Cons by (simp add: nth_append)
    have filt: "filter (\<lambda>c. \<not> matches is_list_item c) (?cs0 @ map (populate ?T) items)
          = filter (\<lambda>c. \<not> matches is_list_item c) ?cs0"
      using new_items by (simp add: filter_empty_conv)
    have "filter (\<lambda>c. \<not> matches is_list_item c) ?cs0 = ?cs0"
      by (simp add: filter_map comp_def)
    moreover have "map remove_items ?cs0 = ?cs0" by simp
    ultimately have rem: "remove_items (Element e (?cs0 @ map (populate ?T) items)) = Element e ?cs0"
      using filt by (simp del: filter_append map_append)
    have "reconcile_list items (Element e (?cs0 @ map (populate ?T) items))
            = append_items (cloneNode ?N0) items (Element e ?cs0)"
      using first got rem by (simp add: reconcile_list_def del: remove_items.simps)
    then show ?thesis using Cons by (simp add: append_items_eq)
  qed
  from mT once twice show ?thesis by metis
qed

lemma rendered_items_after:
  assumes "matches is_list_item T"
  shows "rendered_items (Element e (map remove_items (filter (\<lambda>c. \<not> matches is_list_item c) cs)
            @ map (populate T) items)) = map (populate T) items"
proof -
  have "filter (matches is_list_item) (map remove_items (filter (\<lambda>c. \<not> matches is_list_item c) cs)) = []"
    by (simp add: filter_map comp_def)
  moreover have "filter (matches is_list_item) (map (populate T) items) = map (populate T) items"
    using assms by (simp add: filter_map comp_def matches_populate)
  ultimately show ?thesis by simp
qed

subsection \<open>Reconciling the same list twice\<close>

text \<open>
  Claim C4, as amended. For every list container and every items sequence, applying
  the sequence twice in succession renders as many items as applying it once. When
  every entry is a scalar (a string, number, boolean, null or undefined) the container
  after the second application is the container after the first: same items, same
  content.
\<close>

theorem reconcile_twice_same_count_and_scalars:
  "length (rendered_items (reconcile_list items (reconcile_list items listEl)))
     = length (rendered_items (reconcile_list items listEl))
   \<and> ((\<forall>d\<in>set items. scalar d) \<longrightarrow>
        reconcile_list items (reconcile_list items listEl) = reconcile_list items listEl)"
proof (cases listEl)
  case (Text s)
  then show ?thesis by (simp add: reconcile_list_def)
next
  case (Element e cs)
  show ?thesis
  proof (cases "find_path_list is_list_item cs")
    case None
    with Element show ?thesis by (simp add: reconcile_list_def)
  next
    case (Some p)
    from reconcile_twice[OF Some, of items e] obtain T where
      mT: "matches is_list_item T"
      and once: "reconcile_list items (Element e cs)
               = Element e (map remove_items (filter (\<lambda>c. \<not> matches is_list_item c) cs)
                            @ map (populate T) items)"
      and twice: "reconcile_list items (reconcile_list items (Element e cs))
               = Element e (map remove_items (filter (\<lambda>c. \<not> matches is_list_item c) cs)
                            @ map (populate (case items of [] \<Rightarrow> T
                                             | d0 # ds \<Rightarrow> cloneNode (populate T d0))) items)"
      by blast
    let ?T1 = "case items of [] \<Rightarrow> T | d0 # ds \<Rightarrow> cloneNode (populate T d0)"
    have mT1: "matches is_list_item ?T1"
      using mT by (cases items) (simp_all add: matches_cloneNode matches_populate)
    have count: "length (rendered_items (reconcile_list items (reconcile_list items (Element e cs))))
        = length (rendered_items (reconcile_list items (Element e cs)))"
    proof -
      have "rendered_items (reconcile_list items (reconcile_list items (Element e cs)))
              = map (populate ?T1) items"
        by (simp only: twice rendered_items_after[OF mT1])
      moreover have "rendered_items (reconcile_list items (Element e cs)) = map (populate T) items"
        by (simp only: once rendered_items_after[OF mT])
      ultimately show ?thesis by simp
    qed
    have same: "(\<forall>d\<in>set items. scalar d) \<longrightarrow>
        reconcile_list items (reconcile_list items (Element e cs)) = reconcile_list items (Element e cs)"
    proof
      assume sc: "\<forall>d\<in>set items. scalar d"
      have "map (populate ?T1) items = map (populate T) items"
      proof (cases items)
        case Nil
        then show ?thesis by simp
      next
        case (Cons d0 ds)
        with sc have "scalar d0" by simp
        then show ?thesis using sc Cons
          by (simp add: cloneNode_populate populate_populate)
      qed
      with once twice
      show "reconcile_list items (reconcile_list items (Element e cs)) = reconcile_list items (Element e cs)"
        by simp
    qed
    from count same Element show ?thesis by simp
  qed
qed

theorem reconcile_twice_same_count_and_scalars_witness:
  "length (rendered_items (reconcile_list [JStr ''a'', JNum 2] (reconcile_list [JStr ''a'', JNum 2] example_list)))
     = length (rendered_items (reconcile_list [JStr ''a'', JNum 2] example_list))
   \<and> scalar (JStr ''a'') \<and> scalar (JNum 2)
   \<and> reconcile_list [JStr ''a'', JNum 2] (reconcile_list [JStr ''a'', JNum 2] example_list)
       = reconcile_list [JStr ''a'', JNum 2] example_list
   \<and> map textContent (rendered_items (reconcile_list [JStr ''a'', JNum 2] example_list)) = [''aP'', ''2P'']"
proof -
  have sc: "scalar (JStr ''a'')" "scalar (JNum 2)"
    by (simp_all add: scalar_def typeof_object_def)
  then have all: "\<forall>d\<in>set [JStr ''a'', JNum 2]. scalar d"
    by simp
  have shown: "map textContent (rendered_items (reconcile_list [JStr ''a'', JNum 2] example_list)) = [''aP'', ''2P'']"
    by code_simp
  from reconcile_twice_same_count_and_scalars[of "[JStr ''a'', JNum 2]" example_list] sc all shown
  show ?thesis by blast
qed

text \<open>
  Claim C4 as stated fails for object entries. The second application takes the first
  rendered item as its template, so a field that a later entry does not mention shows
  what the first entry wrote: the price of the second item is the template's \<open>P\<close> after
  one application and the first entry's \<open>1\<close> after two.
\<close>

theorem reconcile_twice_differs:
  "map textContent (rendered_items (reconcile_list
       [JObj [(''title'', JStr ''A''), (''price'', JStr ''1'')], JObj [(''title'', JStr ''B'')]] example_list))
     = [''A1'', ''BP'']
   \<and> map textContent (rendered_items (reconcile_list
       [JObj [(''title'', JStr ''A''), (''price'', JStr ''1'')], JObj [(''title'', JStr ''B'')]]
       (reconcile_list
         [JObj [(''title'', JStr ''A''), (''price'', JStr ''1'')], JObj [(''title'', JStr ''B'')]] example_list)))
     = [''A1'', ''B1'']"
  by code_simp

subsection \<open>Reconciling with no items\<close>

lemma no_item_find_path:
  "\<not> matches is_list_item n \<Longrightarrow> item_nodes n = [] \<Longrightarrow> find_path is_list_item n = None"
proof (induction n)
  case (Text s)
  then show ?case by simp
next
  case (Element e cs)
  then have "\<forall>c\<in>set cs. \<not> matches is_list_item c \<and> item_nodes c = []"
    by (auto split: if_splits)
  with Element have "\<forall>c\<in>set cs. find_path is_list_item c = None" by simp
  with Element.prems show ?case by (simp add: find_path_list_None)
qed

lemma item_nodes_empty_no_item:
  assumes "item_nodes n = []"
  shows "querySelector is_list_item n = None"
proof (cases n)
  case (Text s)
  then show ?thesis by simp
next
  case (Element e cs)
  with assms have "\<forall>c\<in>set cs. \<not> matches is_list_item c \<and> item_nodes c = []"
    by (auto split: if_splits)
  then have "\<forall>c\<in>set cs. find_path is_list_item c = None"
    by (simp add: no_item_find_path)
  with Element show ?thesis by (simp add: find_path_list_None)
qed

lemma find_path_None_remove_items:
  "find_path is_list_item n = None \<Longrightarrow> remove_items n = n"
proof (induction n)
  case (Text s)
  then show ?case by simp
next
  case (Element e cs)
  then have below: "\<forall>c\<in>set cs. find_path is_list_item c = None"
    by (simp add: find_path_list_None split: if_splits)
  have "\<forall>c\<in>set cs. \<not> matches is_list_item c"
  proof
    fix c assume "c \<in> set cs"
    with below have "find_path is_list_item c = None" by simp
    then show "\<not> matches is_list_item c" by (cases c) (auto split: if_splits)
  qed
  then have "filter (\<lambda>c. \<not> matches is_list_item c) cs = cs" by simp
  moreover have "map remove_items cs = cs"
    using below Element.IH by (simp add: map_idI)
  ultimately show ?case by simp
qed

lemma no_item_remove_items:
  assumes "find_path_list is_list_item cs = None"
  shows "remove_items (Element e cs) = Element e cs"
proof -
  have "\<forall>c\<in>set cs. find_path is_list_item c = None"
    using assms by (simp add: find_path_list_None)
  moreover have "\<forall>c\<in>set cs. \<not> matches is_list_item c"
  proof
    fix c assume "c \<in> set cs"
    with calculation have "find_path is_list_item c = None" by simp
    then show "\<not> matches is_list_item c" by (cases c) (auto split: if_splits)
  qed
  ultimately show ?thesis by (simp add: find_path_None_remove_items map_idI)
qed

text \<open>
  Claim C2, as amended. Reconciling a list container with an empty items sequence
  leaves no item node below it, and the container survives unchanged apart from the
  removed items: it is the container with every item node below it taken out. No
  template is kept beyond the call: each reconciliation takes its template from the
  first item node the container has at that moment, so a container without item nodes
  is left as it is by every reconciliation, and in particular the container that an
  empty reconciliation has emptied.
\<close>

theorem empty_reconcile_keeps_container_not_template:
  "item_nodes (reconcile_list [] listEl) = []
   \<and> reconcile_list [] listEl = remove_items listEl
   \<and> (item_nodes other = [] \<longrightarrow> reconcile_list items other = other)
   \<and> reconcile_list items (reconcile_list [] listEl) = reconcile_list [] listEl"
proof -
  have emptied: "reconcile_list [] listEl = remove_items listEl"
  proof (cases listEl)
    case (Text s)
    then show ?thesis by (simp add: reconcile_list_def)
  next
    case (Element e cs)
    show ?thesis
    proof (cases "find_path_list is_list_item cs")
      case None
      with Element show ?thesis
        using no_item_remove_items[OF None, of e] by (simp add: reconcile_list_def)
    next
      case (Some p)
      from find_path_element(2)[OF Some] obtain i p' te tcs where
        "p = i # p'" "i < length cs" "get_at p' (cs ! i) = Some (Element te tcs)"
        by blast
      with Element Some show ?thesis by (simp add: reconcile_list_def)
    qed
  qed
  have no_template: "item_nodes other = [] \<longrightarrow> reconcile_list items other = other"
    by (simp add: reconcile_list_def item_nodes_empty_no_item)
  have "reconcile_list items (remove_items listEl) = remove_items listEl"
    by (simp add: reconcile_list_def)
  with emptied no_template show ?thesis by simp
qed

theorem empty_reconcile_keeps_container_not_template_witness:
  "item_nodes captioned_list \<noteq> []
   \<and> item_nodes (reconcile_list [] captioned_list) = []
   \<and> reconcile_list [] captioned_list = remove_items captioned_list
   \<and> remove_items captioned_list
       = plain_element ''ul'' [(''data-dr-list'', ''features'')]
           [plain_element ''h3'' [] [Text ''Features'']]
   \<and> item_nodes (plain_element ''ul'' [(''data-dr-list'', ''features'')] []) = []
   \<and> reconcile_list [JStr ''a''] (plain_element ''ul'' [(''data-dr-list'', ''features'')] [])
       = plain_element ''ul'' [(''data-dr-list'', ''features'')] []"
proof -
  have a: "item_nodes (plain_element ''ul'' [(''data-dr-list'', ''features'')] []) = []"
    by (simp add: plain_element_def)
  have b: "remove_items captioned_list
       = plain_element ''ul'' [(''data-dr-list'', ''features'')]
           [plain_element ''h3'' [] [Text ''Features'']]"
    "item_nodes captioned_list \<noteq> []"
    by code_simp+
  note inst = empty_reconcile_keeps_container_not_template[of captioned_list
      "plain_element ''ul'' [(''data-dr-list'', ''features'')] []" "[JStr ''a'']"]
  from inst have c: "item_nodes (reconcile_list [] captioned_list) = []"
    and d: "reconcile_list [] captioned_list = remove_items captioned_list"
    by blast+
  from inst a have e: "reconcile_list [JStr ''a''] (plain_element ''ul'' [(''data-dr-list'', ''features'')] [])
       = plain_element ''ul'' [(''data-dr-list'', ''features'')] []"
    by blast
  from a b c d e show ?thesis by blast
qed

text \<open>
  Claim C2 as stated fails: the example list has an item, reconciling it with no items
  leaves none, and the following reconciliation with one entry still leaves none.
\<close>

theorem emptied_list_stays_empty:
  "item_nodes example_list \<noteq> []
   \<and> item_nodes (reconcile_list [] example_list) = []
   \<and> item_nodes (reconcile_list [JObj [(''title'', JStr ''A'')]] (reconcile_list [] example_list)) = []"
  by code_simp

section \<open>The Remote Hydration Channel\<close>

lemma rejected_shape:
  "\<not> has_sections_array m \<Longrightarrow> \<not> truthy m \<or> \<not> isArray (prop_or_undefined m ''sections'')"
  by (cases m) (auto simp: has_sections_array_def prop_or_undefined_def split: option.splits jsval.splits)

text \<open>
  The loads that the injector ends without touching the document: a URL that fails its
  prefix test, before any fetch; and, after the one fetch, a fetch that fails, a
  non-success response, a body that is no JSON, and a body that is not an object with
  an array of sections. Each of them logs one line.
\<close>

lemma hydration_validation_failures:
  "(\<not> passes_url_check url \<longrightarrow>
      initManifestInjector css url fetch doc =
        \<lparr>page = doc, fetched = [],
         logged = [''[manifest-injector] Blocked non-HTTPS manifest URL: '' @ url]\<rparr>)
   \<and> (passes_url_check url \<and> fetch url = NetworkError \<longrightarrow>
      initManifestInjector css url fetch doc =
        \<lparr>page = doc, fetched = [url], logged = [''[manifest-injector] Error:'']\<rparr>)
   \<and> (passes_url_check url \<and> fetch url = Response False status b \<longrightarrow>
      initManifestInjector css url fetch doc =
        \<lparr>page = doc, fetched = [url],
         logged = [''[manifest-injector] Failed to fetch manifest: '' @ show_nat status]\<rparr>)
   \<and> (passes_url_check url \<and> fetch url = Response True status NotJSON \<longrightarrow>
      initManifestInjector css url fetch doc =
        \<lparr>page = doc, fetched = [url], logged = [''[manifest-injector] Error:'']\<rparr>)
   \<and> (passes_url_check url \<and> fetch url = Response True status (JSON m) \<and> \<not> has_sections_array m \<longrightarrow>
      initManifestInjector css url fetch doc =
        \<lparr>page = doc, fetched = [url],
         logged = [''[manifest-injector] Invalid manifest shape - missing sections array'']\<rparr>)"
proof -
  have shape: "passes_url_check url \<and> fetch url = Response True status (JSON m) \<and> \<not> has_sections_array m \<longrightarrow>
      initManifestInjector css url fetch doc =
        \<lparr>page = doc, fetched = [url],
         logged = [''[manifest-injector] Invalid manifest shape - missing sections array'']\<rparr>"
  proof
    assume h: "passes_url_check url \<and> fetch url = Response True status (JSON m) \<and> \<not> has_sections_array m"
    then have "\<not> truthy m \<or> \<not> isArray (prop_or_undefined m ''sections'')"
      using rejected_shape by blast
    with h show "initManifestInjector css url fetch doc =
        \<lparr>page = doc, fetched = [url],
         logged = [''[manifest-injector] Invalid manifest shape - missing sections array'']\<rparr>"
      by (auto simp: passes_url_check_def initManifestInjector_def)
  qed
  have others: "(\<not> passes_url_check url \<longrightarrow>
      initManifestInjector css url fetch doc =
        \<lparr>page = doc, fetched = [],
         logged = [''[manifest-injector] Blocked non-HTTPS manifest URL: '' @ url]\<rparr>)
   \<and> (passes_url_check url \<and> fetch url = NetworkError \<longrightarrow>
      initManifestInjector css url fetch doc =
        \<lparr>page = doc, fetched = [url], logged = [''[manifest-injector] Error:'']\<rparr>)
   \<and> (passes_url_check url \<and> fetch url = Response False status b \<longrightarrow>
      initManifestInjector css url fetch doc =
        \<lparr>page = doc, fetched = [url],
         logged = [''[manifest-injector] Failed to fetch manifest: '' @ show_nat status]\<rparr>)
   \<and> (passes_url_check url \<and> fetch url = Response True status NotJSON \<longrightarrow>
      initManifestInjector css url fetch doc =
        \<lparr>page = doc, fetched = [url], logged = [''[manifest-injector] Error:'']\<rparr>)"
    by (auto simp: passes_url_check_def initManifestInjector_def)
  from shape others show ?thesis by blast
qed

subsection \<open>The manifest URL\<close>

text \<open>
  Claim C8 does not hold of the code. The URL below is not HTTPS and its host is
  \<^verbatim>\<open>localhost.evil.example\<close>, which is no loopback host; it passes the prefix test all
  the same, is fetched, and the manifest it serves changes the heading of the page.
\<close>

theorem localhost_prefix_url_is_fetched:
  "\<not> startsWith ''http://localhost.evil.example/m.json'' ''https://''
   \<and> host_of ''http://localhost.evil.example/m.json'' = ''localhost.evil.example''
   \<and> fetched (initManifestInjector example_css ''http://localhost.evil.example/m.json''
        (\<lambda>u. Response True 200 (JSON title_manifest)) example_page)
       = [''http://localhost.evil.example/m.json'']
   \<and> text_at [0, 0] example_page = ''Old''
   \<and> text_at [0, 0] (page (initManifestInjector example_css ''http://localhost.evil.example/m.json''
        (\<lambda>u. Response True 200 (JSON title_manifest)) example_page)) = ''New''
   \<and> logged (initManifestInjector example_css ''http://localhost.evil.example/m.json''
        (\<lambda>u. Response True 200 (JSON title_manifest)) example_page)
       = [''[manifest-injector] Manifest applied successfully'']"
  by code_simp

theorem localhost_prefix_url_is_fetched_witness:
  "fetched (initManifestInjector example_css ''http://localhost.evil.example/m.json''
        (\<lambda>u. Response True 200 (JSON title_manifest)) example_page)
       = [''http://localhost.evil.example/m.json'']
   \<and> text_at [0, 0] (page (initManifestInjector example_css ''http://localhost.evil.example/m.json''
        (\<lambda>u. Response True 200 (JSON title_manifest)) example_page)) = ''New''"
  using localhost_prefix_url_is_fetched by blast

subsection \<open>Hydration and the full update\<close>


lemma tagName_removeProperty [simp]: "tagName (removeProperty p el) = tagName el"
  by (cases el) simp_all






















end
